(* ===== verification/Prelude.thy ===== *)
theory Prelude
  imports Complex_Main
begin

text \<open>
  Shared material of the development: the lemma collections the component
  theories add to, the type of positions in a document tree, decimal numerals
  as strings (what JavaScript prints for an integer and what the markup
  carries in \<open>data-slide\<close>), and the digit length of an integer in a base,
  from which the number theory computes binary and decimal exponents.
\<close>

section \<open>Lemma collections\<close>

named_theorems js_arith "characteristic equations of the JavaScript number operations"
named_theorems frame "what an operation leaves unchanged"
named_theorems wf_keep "operations that keep a well-formedness predicate"

section \<open>Positions in a tree\<close>

text \<open>
  An element of the document is addressed by the child indexes that lead to it
  from the root; the empty path is the root itself.
\<close>

type_synonym path = "nat list"

section \<open>Decimal numerals\<close>

definition digit_char :: "nat \<Rightarrow> char" where
  "digit_char d = ''0123456789'' ! d"

definition digit_val :: "char \<Rightarrow> nat" where
  "digit_val c = of_char c - 48"

fun decimal :: "nat \<Rightarrow> string" where
  "decimal n = (if n < 10 then [digit_char n] else decimal (n div 10) @ [digit_char (n mod 10)])"

declare decimal.simps [simp del]

definition undecimal :: "string \<Rightarrow> nat" where
  "undecimal s = foldl (\<lambda>a c. 10 * a + digit_val c) 0 s"

lemma digit_val_digit_char [simp]: "d < 10 \<Longrightarrow> digit_val (digit_char d) = d"
proof -
  assume "d < 10"
  then have "d \<in> {0, 1, 2, 3, 4, 5, 6, 7, 8, 9}" by auto
  then show ?thesis by (auto simp: digit_char_def digit_val_def)
qed

lemma decimal_small: "n < 10 \<Longrightarrow> decimal n = [digit_char n]"
  by (simp add: decimal.simps [of n])

lemma decimal_large:
  "\<not> n < 10 \<Longrightarrow> decimal n = decimal (n div 10) @ [digit_char (n mod 10)]"
  by (simp add: decimal.simps [of n])

lemma decimal_nonempty [simp]: "decimal n \<noteq> []"
  by (cases "n < 10") (simp_all add: decimal_small decimal_large)

lemma length_decimal_small [simp]: "n < 10 \<Longrightarrow> length (decimal n) = 1"
  by (simp add: decimal_small)

lemma undecimal_snoc [simp]: "undecimal (s @ [c]) = 10 * undecimal s + digit_val c"
  by (simp add: undecimal_def)

lemma undecimal_single [simp]: "undecimal [c] = digit_val c"
  by (simp add: undecimal_def)

text \<open>Reading a printed numeral gives the number back, so printing is injective.\<close>

lemma undecimal_decimal [simp]: "undecimal (decimal n) = n"
proof (induction n rule: decimal.induct)
  case (1 n)
  show ?case
  proof (cases "n < 10")
    case True
    then show ?thesis by (simp add: decimal_small)
  next
    case False
    with "1.IH" show ?thesis by (simp add: decimal_large)
  qed
qed

lemma decimal_inj [simp]: "decimal m = decimal n \<longleftrightarrow> m = n"
  by (metis undecimal_decimal)

text \<open>Trailing zeros, and the length of a numeral.\<close>

lemma digit_char_0 [simp]: "digit_char 0 = CHR ''0''"
  by (simp add: digit_char_def)

lemma decimal_times_10: "0 < s \<Longrightarrow> decimal (s * 10) = decimal s @ ''0''"
  by (simp add: decimal_large [of "s * 10"])

lemma decimal_shift: "0 < s \<Longrightarrow> decimal (s * 10 ^ j) = decimal s @ replicate j CHR ''0''"
proof (induction j)
  case (Suc j)
  then have "decimal (s * 10 ^ j * 10) = (decimal s @ replicate j CHR ''0'') @ ''0''"
    by (simp add: decimal_times_10)
  then show ?case by (simp add: replicate_append_same mult_ac)
qed simp

lemma length_decimal_bounds:
  "0 < n \<Longrightarrow> 10 ^ (length (decimal n) - 1) \<le> n \<and> n < 10 ^ length (decimal n)"
proof (induction n rule: decimal.induct)
  case (1 n)
  show ?case
  proof (cases "n < 10")
    case True
    with "1.prems" show ?thesis by (simp add: decimal_small)
  next
    case False
    then have "0 < n div 10" by simp
    with "1.IH" False
    have "10 ^ (length (decimal (n div 10)) - 1) \<le> n div 10" "n div 10 < 10 ^ length (decimal (n div 10))"
      by simp_all
    moreover have "0 < length (decimal (n div 10))" by simp
    ultimately show ?thesis
      using False by (cases "length (decimal (n div 10))") (simp_all add: decimal_large [of n], linarith+)
  qed
qed

lemma length_decimal_unique:
  assumes "10 ^ l \<le> n" "n < 10 ^ Suc l"
  shows "length (decimal n) = Suc l"
proof -
  from assms(1) have "0 < n" by (cases "n = 0") simp_all
  note b = length_decimal_bounds [OF this]
  from b assms(2) have "(10::nat) ^ (length (decimal n) - 1) < 10 ^ Suc l" by linarith
  then have "length (decimal n) - 1 < Suc l" by (simp only: power_strict_increasing_iff)
  moreover from b assms(1) have "(10::nat) ^ l < 10 ^ length (decimal n)" by linarith
  then have "l < length (decimal n)" by simp
  ultimately show ?thesis by simp
qed

section \<open>Digit length\<close>

text \<open>
  \<open>ilen b a\<close> is the number of base-\<open>b\<close> digits of a positive integer \<open>a\<close>
  (and 0 for \<open>a \<le> 0\<close>). It is computed on \<open>int\<close> so that it evaluates on
  the 17-digit numerators that 53-bit significands produce.
\<close>

function ilen :: "int \<Rightarrow> int \<Rightarrow> int" where
  "ilen b a = (if 1 < b \<and> 0 < a then ilen b (a div b) + 1 else 0)"
  by pat_completeness auto
termination
  by (relation "measure (\<lambda>(b, a). nat a)") (auto intro: int_div_less_self)

declare ilen.simps [simp del]

lemma ilen_nonpos [simp]: "a \<le> 0 \<Longrightarrow> ilen b a = 0"
  by (simp add: ilen.simps [of b a])

lemma ilen_step: "1 < b \<Longrightarrow> 0 < a \<Longrightarrow> ilen b a = ilen b (a div b) + 1"
  by (simp add: ilen.simps [of b a])

lemma ilen_nonneg [simp]: "0 \<le> ilen b a"
  by (induction b a rule: ilen.induct) (simp add: ilen.simps)

lemma ilen_pos: "1 < b \<Longrightarrow> 0 < a \<Longrightarrow> 0 < ilen b a"
  using ilen_nonneg [of b "a div b"] by (simp add: ilen_step)

lemma ilen_bounds:
  "1 < b \<Longrightarrow> 0 < a \<Longrightarrow> b ^ nat (ilen b a - 1) \<le> a \<and> a < b ^ nat (ilen b a)"
proof (induction b a rule: ilen.induct)
  case (1 b a)
  show ?case
  proof (cases "a < b")
    case True
    with "1.prems" have "a div b = 0" by simp
    with "1.prems" True show ?thesis by (simp add: ilen_step)
  next
    case False
    with "1.prems" have pos: "0 < a div b"
      by (simp add: pos_imp_zdiv_pos_iff)
    define m where "m = nat (ilen b (a div b) - 1)"
    from ilen_pos [OF "1.prems"(1) pos]
    have m: "nat (ilen b (a div b)) = Suc m" "nat (ilen b (a div b) + 1) = Suc (Suc m)"
      by (simp_all add: m_def)
    from "1.IH" "1.prems" pos m have lo: "b ^ m \<le> a div b" and hi: "a div b < b ^ Suc m"
      by (auto simp: m_def)
    have eq: "a = b * (a div b) + a mod b" by simp
    have md: "0 \<le> a mod b" "a mod b < b" using "1.prems" by simp_all
    have "b * b ^ m \<le> b * (a div b)"
      using lo "1.prems" by simp
    also have "\<dots> \<le> a"
      using eq md by linarith
    finally have lower: "b ^ Suc m \<le> a" by simp
    have "a < b * (a div b) + b" using eq md by linarith
    also have "\<dots> = b * (a div b + 1)" by (simp add: algebra_simps)
    also have "\<dots> \<le> b * b ^ Suc m" using hi "1.prems" by (intro mult_left_mono) auto
    finally have upper: "a < b ^ Suc (Suc m)" by simp
    from lower upper show ?thesis by (simp add: ilen_step "1.prems" m)
  qed
qed

section \<open>Lists and options\<close>

lemma find_Some_in_set: "find P xs = Some x \<Longrightarrow> x \<in> set xs \<and> P x"
  by (induction xs) (auto split: if_splits)

lemma find_None_iff_all: "find P xs = None \<longleftrightarrow> (\<forall>x \<in> set xs. \<not> P x)"
  by (induction xs) auto

lemma find_cong_set: "(\<And>x. x \<in> set xs \<Longrightarrow> P x = Q x) \<Longrightarrow> find P xs = find Q xs"
  by (induction xs) auto

lemma filter_cong_set: "(\<And>x. x \<in> set xs \<Longrightarrow> P x = Q x) \<Longrightarrow> filter P xs = filter Q xs"
  by (induction xs) auto

lemma find_filter:
  "(\<And>x. x \<in> set xs \<Longrightarrow> P x \<Longrightarrow> Q x) \<Longrightarrow> find P (filter Q xs) = find P xs"
  by (induction xs) auto

lemma find_append:
  "find P (xs @ ys) = (case find P xs of None \<Rightarrow> find P ys | Some x \<Rightarrow> Some x)"
  by (induction xs) auto

lemma find_append_None: "(\<And>y. y \<in> set ys \<Longrightarrow> \<not> P y) \<Longrightarrow> find P (xs @ ys) = find P xs"
  by (simp add: find_append find_None_iff_all [THEN iffD2] split: option.splits)

lemma filter_eq_distinct: "distinct xs \<Longrightarrow> x \<in> set xs \<Longrightarrow> filter (\<lambda>y. y = x) xs = [x]"
  by (induction xs) (auto simp: filter_empty_conv)

lemma find_filter_Some: "find P xs = Some a \<Longrightarrow> Q a \<Longrightarrow> find P (filter Q xs) = Some a"
  by (induction xs) (auto split: if_splits)

end
