(* ===== verification/JsNumber.thy ===== *)
theory JsNumber
  imports Prelude
begin

text \<open>
  JavaScript numbers as the program uses them. A finite double is the rational
  it denotes; \<open>fl\<close> rounds a rational to the nearest double (53-bit
  significand, ties to even, gradual underflow) and \<open>to_double\<close> adds the
  overflow to an infinity. The arithmetic of \<open>src/app.js\<close> (\<open>+\<close>, \<open>-\<close>,
  \<open>*\<close>, \<open>/\<close>, \<open>Math.abs\<close>), its comparisons (\<open><\<close>, \<open>></\<close>, \<open>===\<close>) and the
  conversion of a number to a string in template literals and in
  \<open>textContent\<close> assignments follow ECMA-262. Negative zero is identified
  with zero: the program never divides by a computed zero and never prints
  a zero, so the two cannot be told apart by it.
\<close>

section \<open>Rounding to a double\<close>

definition ilog :: "int \<Rightarrow> rat \<Rightarrow> int" where
  "ilog b q = (let (n, d) = quotient_of q; e = ilen b n - ilen b d
               in if of_int b powi e \<le> q then e else e - 1)"

definition round_even :: "rat \<Rightarrow> int" where
  "round_even r = (let f = \<lfloor>r\<rfloor>; d = r - of_int f in
     if d < 1 / 2 then f else if 1 / 2 < d then f + 1 else if even f then f else f + 1)"

definition ulp :: "rat \<Rightarrow> rat" where
  "ulp q = 2 powi (max (ilog 2 \<bar>q\<bar>) (- 1022) - 52)"

definition fl :: "rat \<Rightarrow> rat" where
  "fl q = (if q = 0 then 0 else of_int (round_even (q / ulp q)) * ulp q)"

section \<open>Number values\<close>

datatype jsnum = Fin rat | NaN | PosInf | NegInf

definition to_double :: "rat \<Rightarrow> jsnum" where
  "to_double q = (let r = fl q in
     if 2 ^ 1024 \<le> r then PosInf else if r \<le> - (2 ^ 1024) then NegInf else Fin r)"

abbreviation num :: "int \<Rightarrow> jsnum" where
  "num k \<equiv> Fin (of_int k)"

fun js_neg :: "jsnum \<Rightarrow> jsnum" where
  "js_neg (Fin a) = Fin (- a)"
| "js_neg NaN = NaN"
| "js_neg PosInf = NegInf"
| "js_neg NegInf = PosInf"

fun js_add :: "jsnum \<Rightarrow> jsnum \<Rightarrow> jsnum" where
  "js_add (Fin a) (Fin b) = to_double (a + b)"
| "js_add NaN _ = NaN"
| "js_add _ NaN = NaN"
| "js_add PosInf NegInf = NaN"
| "js_add NegInf PosInf = NaN"
| "js_add PosInf _ = PosInf"
| "js_add _ PosInf = PosInf"
| "js_add NegInf _ = NegInf"
| "js_add _ NegInf = NegInf"

definition js_sub :: "jsnum \<Rightarrow> jsnum \<Rightarrow> jsnum" where
  "js_sub a b = js_add a (js_neg b)"

fun js_sign :: "jsnum \<Rightarrow> int" where
  "js_sign (Fin a) = sgn \<lfloor>sgn a\<rfloor>"
| "js_sign NaN = 0"
| "js_sign PosInf = 1"
| "js_sign NegInf = - 1"

definition inf_of_sign :: "int \<Rightarrow> jsnum" where
  "inf_of_sign s = (if s = 0 then NaN else if 0 < s then PosInf else NegInf)"

fun js_mul :: "jsnum \<Rightarrow> jsnum \<Rightarrow> jsnum" where
  "js_mul (Fin a) (Fin b) = to_double (a * b)"
| "js_mul NaN _ = NaN"
| "js_mul _ NaN = NaN"
| "js_mul a b = inf_of_sign (js_sign a * js_sign b)"

fun js_div :: "jsnum \<Rightarrow> jsnum \<Rightarrow> jsnum" where
  "js_div (Fin a) (Fin b) =
     (if b = 0 then inf_of_sign (js_sign (Fin a)) else to_double (a / b))"
| "js_div NaN _ = NaN"
| "js_div _ NaN = NaN"
| "js_div (Fin a) _ = Fin 0"
| "js_div a (Fin b) = inf_of_sign (js_sign a * (if b < 0 then - 1 else 1))"
| "js_div _ _ = NaN"

fun js_lt :: "jsnum \<Rightarrow> jsnum \<Rightarrow> bool" where
  "js_lt (Fin a) (Fin b) = (a < b)"
| "js_lt NaN _ = False"
| "js_lt _ NaN = False"
| "js_lt _ NegInf = False"
| "js_lt PosInf _ = False"
| "js_lt _ _ = True"

definition js_gt :: "jsnum \<Rightarrow> jsnum \<Rightarrow> bool" where
  "js_gt a b = js_lt b a"

definition js_strict_eq :: "jsnum \<Rightarrow> jsnum \<Rightarrow> bool" where
  "js_strict_eq a b = (a \<noteq> NaN \<and> a = b)"

fun Math_abs :: "jsnum \<Rightarrow> jsnum" where
  "Math_abs (Fin a) = Fin \<bar>a\<bar>"
| "Math_abs NaN = NaN"
| "Math_abs PosInf = PosInf"
| "Math_abs NegInf = PosInf"

section \<open>Number to string\<close>

text \<open>
  \<open>Number::toString\<close> in radix 10: the shortest digit string \<open>s\<close> (of \<open>k\<close>
  digits) and decimal exponent \<open>n\<close> such that \<open>s \<times> 10\<^bsup>n-k\<^esup>\<close> rounds to the
  number, the closest such if there are several, laid out in positional or
  exponential notation by the size of \<open>n\<close>. \<open>digits_at\<close> tests the two
  \<open>k\<close>-digit neighbours of the number; \<open>shortest\<close> tries \<open>k = 1, 2, \<dots>\<close> with
  fuel 17, the number of digits that identifies every double.
\<close>

definition digits_at :: "rat \<Rightarrow> int \<Rightarrow> nat \<Rightarrow> (int \<times> int) option" where
  "digits_at x n k =
    (let p = 10 powi (n - int k); lo = \<lfloor>x / p\<rfloor>; hi = lo + 1;
         ok_lo = (fl (of_int lo * p) = x); ok_hi = (fl (of_int hi * p) = x);
         up = (if hi = 10 ^ k then (10 ^ (k - 1), n + 1) else (hi, n));
         dl = x - of_int lo * p; dh = of_int hi * p - x
     in if ok_lo \<and> ok_hi then
          (if dl < dh \<or> (dl = dh \<and> even lo) then Some (lo, n) else Some up)
        else if ok_lo then Some (lo, n)
        else if ok_hi then Some up
        else None)"

primrec shortest :: "nat \<Rightarrow> rat \<Rightarrow> int \<Rightarrow> nat \<Rightarrow> (int \<times> int) option" where
  "shortest 0 x n k = None"
| "shortest (Suc f) x n k =
    (case digits_at x n k of
       Some sn \<Rightarrow> Some sn
     | None \<Rightarrow> shortest f x n (Suc k))"

definition exponent_part :: "int \<Rightarrow> string" where
  "exponent_part e = CHR ''e'' # (if e < 0 then CHR ''-'' else CHR ''+'') # decimal (nat \<bar>e\<bar>)"

definition format_digits :: "string \<Rightarrow> int \<Rightarrow> string" where
  "format_digits ds n =
    (let k = int (length ds) in
     if k \<le> n \<and> n \<le> 21 then ds @ replicate (nat (n - k)) CHR ''0''
     else if 0 < n \<and> n \<le> 21 then take (nat n) ds @ ''.'' @ drop (nat n) ds
     else if - 6 < n \<and> n \<le> 0 then ''0.'' @ replicate (nat (- n)) CHR ''0'' @ ds
     else if k = 1 then ds @ exponent_part (n - 1)
     else take 1 ds @ ''.'' @ drop 1 ds @ exponent_part (n - 1))"

definition pos_to_string :: "rat \<Rightarrow> string" where
  "pos_to_string q =
    (let x = fl q in
     case shortest 17 x (ilog 10 x + 1) 1 of
       None \<Rightarrow> []
     | Some (s, n) \<Rightarrow> format_digits (decimal (nat s)) n)"

fun Number_toString :: "jsnum \<Rightarrow> string" where
  "Number_toString NaN = ''NaN''"
| "Number_toString PosInf = ''Infinity''"
| "Number_toString NegInf = ''-Infinity''"
| "Number_toString (Fin q) =
     (if q = 0 then ''0''
      else if q < 0 then CHR ''-'' # pos_to_string (- q)
      else pos_to_string q)"

section \<open>Integral numbers\<close>

text \<open>
  \<open>safe_int\<close> holds of the finite numbers that are integers of absolute
  value at most \<open>2\<^sup>5\<^sup>3\<close>; \<open>int_of\<close> reads such a number as an integer.
\<close>

fun safe_int :: "jsnum \<Rightarrow> bool" where
  "safe_int (Fin q) = (of_int \<lfloor>q\<rfloor> = q \<and> \<bar>q\<bar> \<le> 2 ^ 53)"
| "safe_int _ = False"

fun int_of :: "jsnum \<Rightarrow> int" where
  "int_of (Fin q) = \<lfloor>q\<rfloor>"
| "int_of _ = 0"

section \<open>The binary exponent\<close>

lemma quotient_of_pos:
  assumes "0 < q" obtains n d where "quotient_of q = (n, d)" "0 < n" "0 < d" "q = of_int n / of_int d"
proof -
  obtain n d where nd: "quotient_of q = (n, d)" by (cases "quotient_of q")
  then have d: "0 < d" by (rule quotient_of_denom_pos)
  from nd have q: "q = of_int n / of_int d" by (rule quotient_of_div)
  with assms d have "0 < n" by (simp add: zero_less_divide_iff)
  with nd d q show thesis by (auto intro: that)
qed

lemma powi_ilen_bounds:
  assumes "1 < b" "0 < a"
  shows "(of_int b :: rat) powi (ilen b a - 1) \<le> of_int a" "of_int a < (of_int b :: rat) powi ilen b a"
proof -
  from ilen_pos [OF assms] have "0 \<le> ilen b a - 1" "0 \<le> ilen b a" by simp_all
  moreover from ilen_bounds [OF assms]
  have "(of_int (b ^ nat (ilen b a - 1)) :: rat) \<le> of_int a" "(of_int a :: rat) < of_int (b ^ nat (ilen b a))"
    by (simp_all only: of_int_le_iff of_int_less_iff)
  ultimately show "(of_int b :: rat) powi (ilen b a - 1) \<le> of_int a" "of_int a < (of_int b :: rat) powi ilen b a"
    by (simp_all add: power_int_nonneg_exp)
qed

lemma ilog_bounds:
  assumes b: "1 < b" and q: "0 < q"
  shows "of_int b powi ilog b q \<le> q \<and> q < of_int b powi (ilog b q + 1)"
proof -
  from q obtain n d where nd: "quotient_of q = (n, d)" "0 < n" "0 < d" "q = of_int n / of_int d"
    by (rule quotient_of_pos)
  let ?B = "of_int b :: rat"
  let ?e = "ilen b n - ilen b d"
  have B: "1 < ?B" "0 < ?B" using b by simp_all
  note bn = powi_ilen_bounds [OF b nd(2)] and bd = powi_ilen_bounds [OF b nd(3)]
  have pd: "0 < (of_int d :: rat)" using nd(3) by simp
  have "?B powi (?e - 1) * of_int d < ?B powi (?e - 1) * ?B powi ilen b d"
    using bd(2) B by simp
  also have "\<dots> = ?B powi (ilen b n - 1)"
    using B by (simp flip: power_int_add)
  also have "\<dots> \<le> of_int n" by (rule bn(1))
  finally have lo: "?B powi (?e - 1) < q"
    using pd by (simp add: nd(4) pos_less_divide_eq)
  have "of_int n < ?B powi ilen b n" by (rule bn(2))
  also have "\<dots> = ?B powi (?e + 1) * ?B powi (ilen b d - 1)"
    using B by (simp flip: power_int_add)
  also have "\<dots> \<le> ?B powi (?e + 1) * of_int d"
    using bd(1) B by simp
  finally have hi: "q < ?B powi (?e + 1)"
    using pd by (simp add: nd(4) pos_divide_less_eq)
  show ?thesis
  proof (cases "?B powi ?e \<le> q")
    case True
    with hi nd(1) show ?thesis by (simp add: ilog_def)
  next
    case False
    with lo nd(1) show ?thesis by (simp add: ilog_def)
  qed
qed

section \<open>Integers are exact\<close>

lemma round_even_of_int [simp]: "round_even (of_int m) = m"
  by (simp add: round_even_def)

lemma ulp_pos [simp]: "0 < ulp q"
  by (simp add: ulp_def)

lemma ulp_neq_0 [simp]: "ulp q \<noteq> 0"
  using ulp_pos [of q] by linarith

lemma fl_0 [simp]: "fl 0 = 0"
  by (simp add: fl_def)

lemma fl_exact: "q = of_int m * ulp q \<Longrightarrow> fl q = q"
proof (cases "q = 0")
  case False
  assume q: "q = of_int m * ulp q"
  then have "q / ulp q = of_int m" by (simp add: nonzero_divide_eq_eq)
  with False q show ?thesis by (simp add: fl_def)
qed simp

lemma ilog2_int_range:
  assumes "n \<noteq> 0" "\<bar>n\<bar> \<le> 2 ^ 53"
  shows "0 \<le> ilog 2 \<bar>of_int n\<bar>" "ilog 2 \<bar>of_int n\<bar> \<le> 53"
proof -
  let ?q = "\<bar>of_int n\<bar> :: rat"
  let ?e = "ilog 2 ?q"
  from assms(1) have q1: "1 \<le> ?q" by (simp flip: of_int_abs)
  then have "0 < ?q" by simp
  from ilog_bounds [OF _ this, of 2]
  have lo: "2 powi ?e \<le> ?q" and hi: "?q < 2 powi (?e + 1)" by simp_all
  show "0 \<le> ?e"
  proof (rule ccontr)
    assume "\<not> 0 \<le> ?e"
    then have "(2 :: rat) powi (?e + 1) \<le> 2 powi 0"
      by (intro power_int_increasing) simp_all
    with hi q1 show False by simp
  qed
  from assms(2) have "?q \<le> of_int (2 ^ 53)"
    by (simp only: of_int_le_iff flip: of_int_abs)
  with lo have "(2 :: rat) powi ?e \<le> 2 powi 53" by simp
  then show "?e \<le> 53" by (rule power_int_le_imp_le_exp [rotated]) simp_all
qed

lemma fl_of_int:
  assumes "\<bar>n\<bar> \<le> 2 ^ 53"
  shows "fl (of_int n) = of_int n"
proof (cases "n = 0")
  case False
  let ?e = "ilog 2 \<bar>of_int n :: rat\<bar>"
  note e = ilog2_int_range [OF False assms]
  then have u: "ulp (of_int n) = 2 powi (?e - 52)" by (simp add: ulp_def max_def)
  show ?thesis
  proof (cases "?e \<le> 52")
    case True
    then have "of_int (2 ^ nat (52 - ?e)) = (2 :: rat) powi (52 - ?e)"
      by (simp add: power_int_nonneg_exp)
    moreover have "(2 :: rat) powi (52 - ?e) * 2 powi (?e - 52) = 1"
      by (simp flip: power_int_add)
    ultimately have "of_int n = of_int (n * 2 ^ nat (52 - ?e)) * ulp (of_int n :: rat)"
      by (simp only: u of_int_mult mult.assoc mult_1_right)
    then show ?thesis by (rule fl_exact)
  next
    case False
    with e have e53: "?e = 53" by simp
    from False have "0 < \<bar>of_int n :: rat\<bar>" using \<open>n \<noteq> 0\<close> by simp
    from ilog_bounds [OF _ this, of 2] e53 have "(2 :: rat) ^ 53 \<le> \<bar>of_int n\<bar>" by simp
    then have "(of_int (2 ^ 53) :: rat) \<le> of_int \<bar>n\<bar>" by simp
    then have "2 ^ 53 \<le> \<bar>n\<bar>" by (simp only: of_int_le_iff)
    with assms have "\<bar>n\<bar> = 2 ^ 53" by simp
    then have "n = 2 ^ 53 \<or> n = - (2 ^ 53)" by (auto simp: abs_if split: if_splits)
    then have "n = 2 * (n div 2)" by auto
    then have "(of_int n :: rat) = of_int (n div 2) * 2"
      by (metis mult.commute of_int_mult of_int_numeral)
    moreover have "ulp (of_int n :: rat) = 2" by (simp add: u e53)
    ultimately have "of_int n = of_int (n div 2) * ulp (of_int n :: rat)"
      by (simp only:)
    then show ?thesis by (rule fl_exact)
  qed
qed simp

lemma to_double_of_int [js_arith]: "\<bar>n\<bar> \<le> 2 ^ 53 \<Longrightarrow> to_double (of_int n) = num n"
proof -
  assume n: "\<bar>n\<bar> \<le> 2 ^ 53"
  then have "\<bar>of_int n :: rat\<bar> \<le> of_int (2 ^ 53)" by (simp only: of_int_le_iff flip: of_int_abs)
  then have "\<bar>of_int n :: rat\<bar> < 2 ^ 1024" by simp
  with n show ?thesis by (simp add: to_double_def fl_of_int Let_def abs_less_iff not_le)
qed

lemma to_double_Ints [js_arith]:
  assumes "q \<in> \<int>" "\<bar>q\<bar> \<le> 2 ^ 53"
  shows "to_double q = Fin q"
proof -
  from assms(1) obtain n where q: "q = of_int n" by (rule Ints_cases)
  with assms(2) have "(of_int \<bar>n\<bar> :: rat) \<le> of_int (2 ^ 53)" by simp
  then have "\<bar>n\<bar> \<le> 2 ^ 53" by (simp only: of_int_le_iff)
  then show ?thesis unfolding q by (rule to_double_of_int)
qed

section \<open>Characteristic equations\<close>

lemma js_add_num [js_arith]:
  "\<bar>a + b\<bar> \<le> 2 ^ 53 \<Longrightarrow> js_add (num a) (num b) = num (a + b)"
  using to_double_of_int [of "a + b"] by simp

lemma js_sub_num [js_arith]:
  "\<bar>a - b\<bar> \<le> 2 ^ 53 \<Longrightarrow> js_sub (num a) (num b) = num (a - b)"
  using to_double_of_int [of "a - b"] by (simp add: js_sub_def)

lemma js_mul_num [js_arith]:
  "\<bar>a * b\<bar> \<le> 2 ^ 53 \<Longrightarrow> js_mul (num a) (num b) = num (a * b)"
  using to_double_of_int [of "a * b"] by simp

lemma js_lt_NaN_right [simp]: "js_lt a NaN = False"
  by (cases a) simp_all

lemma js_gt_Fin [simp]: "js_gt (Fin a) (Fin b) = (b < a)"
  by (simp add: js_gt_def)

lemma js_gt_NaN [simp]: "js_gt NaN b = False" "js_gt a NaN = False"
  by (simp_all add: js_gt_def)

lemma js_strict_eq_Fin [simp]: "js_strict_eq (Fin a) (Fin b) = (a = b)"
  by (simp add: js_strict_eq_def)

lemma js_strict_eq_NaN [simp]: "js_strict_eq NaN b = False" "js_strict_eq a NaN = False"
  by (auto simp: js_strict_eq_def)

text \<open>
  The comparisons order the finite numbers as the rationals are ordered and
  fail on \<open>NaN\<close>; in particular \<open>a < b\<close> and \<open>a > b\<close> can both be false while
  \<open>a === b\<close> is false too.
\<close>

lemma js_lt_irrefl [simp]: "\<not> js_lt a a"
  by (cases a) simp_all

lemma js_lt_trans: "js_lt a b \<Longrightarrow> js_lt b c \<Longrightarrow> js_lt a c"
  by (cases a; cases b; cases c) simp_all

lemma js_trichotomy: "a \<noteq> NaN \<Longrightarrow> b \<noteq> NaN \<Longrightarrow> js_lt a b \<or> js_strict_eq a b \<or> js_gt a b"
  by (cases a; cases b) (auto simp: js_gt_def js_strict_eq_def)

lemma Math_abs_nonneg: "\<not> js_lt (Math_abs a) (Fin 0)"
  by (cases a) simp_all

section \<open>Printing small integers\<close>

text \<open>
  The numerals the program prints while the position is in range are the
  integers up to 100 (positions and whole percentages). They print as the
  markup writes them.
\<close>

lemma Number_toString_1_10:
  "Number_toString (Fin 1) = ''1''" "Number_toString (Fin 2) = ''2''"
  "Number_toString (Fin 3) = ''3''" "Number_toString (Fin 4) = ''4''"
  "Number_toString (Fin 5) = ''5''" "Number_toString (Fin 6) = ''6''"
  "Number_toString (Fin 7) = ''7''" "Number_toString (Fin 8) = ''8''"
  "Number_toString (Fin 9) = ''9''" "Number_toString (Fin 10) = ''10''"
  by code_simp+

lemma Number_toString_100: "Number_toString (Fin 100) = ''100''"
  by code_simp

section \<open>Safe integers\<close>

lemma floor_rat_numeral_divide [simp]:
  "\<lfloor>numeral a / numeral b :: rat\<rfloor> = numeral a div numeral b"
  using floor_divide_of_int_eq [of "numeral a" "numeral b", where ?'a = rat] by simp

lemma abs_of_int_le_2_53: "(\<bar>of_int k :: rat\<bar> \<le> 2 ^ 53) = (\<bar>k\<bar> \<le> 2 ^ 53)"
proof -
  have "(\<bar>of_int k :: rat\<bar> \<le> 2 ^ 53) = (of_int \<bar>k\<bar> \<le> (of_int (2 ^ 53) :: rat))" by simp
  also have "\<dots> = (\<bar>k\<bar> \<le> 2 ^ 53)" by (simp only: of_int_le_iff)
  finally show ?thesis .
qed

lemma safe_int_num [simp]: "safe_int (num k) \<longleftrightarrow> \<bar>k\<bar> \<le> 2 ^ 53"
  using abs_of_int_le_2_53 [of k] by simp

lemma int_of_num [simp]: "int_of (num k) = k"
  by simp

lemma safe_int_iff: "safe_int a \<longleftrightarrow> a = num (int_of a) \<and> \<bar>int_of a\<bar> \<le> 2 ^ 53"
proof (cases a)
  case (Fin q)
  show ?thesis
  proof (cases "of_int \<lfloor>q\<rfloor> = q")
    case True
    then have "(\<bar>q\<bar> \<le> 2 ^ 53) = (\<bar>\<lfloor>q\<rfloor>\<bar> \<le> 2 ^ 53)"
      using abs_of_int_le_2_53 [of "\<lfloor>q\<rfloor>"] by (simp only:)
    with True show ?thesis unfolding Fin by (simp only: safe_int.simps int_of.simps simp_thms)
  next
    case False
    then show ?thesis unfolding Fin by (simp only: safe_int.simps int_of.simps jsnum.inject) metis
  qed
qed simp_all

lemma safe_intE:
  assumes "safe_int a" obtains k where "a = num k" "\<bar>k\<bar> \<le> 2 ^ 53"
  using assms safe_int_iff by blast

section \<open>Rounding is monotone\<close>

lemma ulp_nonneg [simp]: "0 \<le> ulp q"
  using ulp_pos [of q] by (rule less_imp_le)

lemma round_even_mono: "r \<le> s \<Longrightarrow> round_even r \<le> round_even s"
proof -
  assume rs: "r \<le> s"
  show ?thesis
  proof (cases "\<lfloor>r\<rfloor> = \<lfloor>s\<rfloor>")
    case True
    with rs show ?thesis by (auto simp: round_even_def Let_def)
  next
    case False
    with rs have "\<lfloor>r\<rfloor> + 1 \<le> \<lfloor>s\<rfloor>" using floor_mono [OF rs] by linarith
    moreover have "round_even r \<le> \<lfloor>r\<rfloor> + 1" by (simp add: round_even_def Let_def)
    moreover have "\<lfloor>s\<rfloor> \<le> round_even s" by (simp add: round_even_def Let_def)
    ultimately show ?thesis by linarith
  qed
qed

lemma round_even_nonneg: "0 \<le> r \<Longrightarrow> 0 \<le> round_even r"
  using round_even_mono [of 0 r] round_even_of_int [of 0] by simp

lemma fl_nonneg: "0 \<le> q \<Longrightarrow> 0 \<le> fl q"
proof -
  assume "0 \<le> q"
  then have "0 \<le> q / ulp q" using ulp_pos [of q] by (intro divide_nonneg_pos)
  then have "0 \<le> round_even (q / ulp q)" by (rule round_even_nonneg)
  moreover have "0 \<le> ulp q" using ulp_pos [of q] by (rule less_imp_le)
  ultimately have "0 \<le> (of_int (round_even (q / ulp q)) :: rat) * ulp q"
    by (intro mult_nonneg_nonneg) simp_all
  then show ?thesis by (simp add: fl_def)
qed

lemma pow2_le_imp_le: "(2::rat) powi a \<le> 2 powi e \<Longrightarrow> a \<le> e"
  using power_int_strict_increasing [of e a "2::rat"] by (cases "a \<le> e") auto

lemma ilog_le_of_pow2_le: "0 < q \<Longrightarrow> q \<le> 2 powi e \<Longrightarrow> ilog 2 q \<le> e"
proof -
  assume q: "0 < q" "q \<le> 2 powi e"
  from ilog_bounds [of 2 q] q(1) have "(2::rat) powi ilog 2 q \<le> q" by simp
  with q(2) have "(2::rat) powi ilog 2 q \<le> 2 powi e" by linarith
  then show ?thesis by (rule pow2_le_imp_le)
qed

lemma ilog_ge_of_pow2_le: "0 < q \<Longrightarrow> 2 powi e \<le> q \<Longrightarrow> e \<le> ilog 2 q"
proof -
  assume q: "0 < q" "2 powi e \<le> q"
  from ilog_bounds [of 2 q] q(1) have "q < (2::rat) powi (ilog 2 q + 1)" by simp
  with q(2) have "(2::rat) powi e < 2 powi (ilog 2 q + 1)" by linarith
  then have "e < ilog 2 q + 1"
    using power_int_increasing [of "ilog 2 q + 1" e "2::rat"] by (cases "e < ilog 2 q + 1") auto
  then show ?thesis by simp
qed

text \<open>A power of two at or above the last place of \<open>q\<close> is a multiple of its unit.\<close>

lemma ulp_divides_pow2:
  assumes "max (ilog 2 \<bar>q\<bar>) (- 1022) - 52 \<le> e"
  shows "\<exists>m. 2 powi e = of_int m * ulp q"
proof -
  define k where "k = nat (e - (max (ilog 2 \<bar>q\<bar>) (- 1022) - 52))"
  have "(2::rat) powi e = 2 powi (int k) * 2 powi (max (ilog 2 \<bar>q\<bar>) (- 1022) - 52)"
    using assms by (simp add: k_def flip: power_int_add)
  also have "(2::rat) powi (int k) = of_int (2 ^ k)" by simp
  finally show ?thesis unfolding ulp_def by blast
qed

lemma fl_le_pow2:
  assumes "0 < q" "q \<le> 2 powi e" "- 1074 \<le> e"
  shows "fl q \<le> 2 powi e"
proof -
  from ilog_le_of_pow2_le [OF assms(1,2)] assms(1,3)
  have "max (ilog 2 \<bar>q\<bar>) (- 1022) - 52 \<le> e" by simp
  from ulp_divides_pow2 [OF this] obtain m where m: "2 powi e = of_int m * ulp q" ..
  then have "q / ulp q \<le> of_int m" using assms(2) by (simp add: pos_divide_le_eq)
  from round_even_mono [OF this] have "round_even (q / ulp q) \<le> m" by simp
  then have "of_int (round_even (q / ulp q)) * ulp q \<le> of_int m * ulp q"
    by (simp add: mult_right_mono)
  with m assms(1) show ?thesis by (simp add: fl_def)
qed

lemma fl_ge_pow2_aligned:
  assumes "0 < q" "2 powi e \<le> q" "max (ilog 2 \<bar>q\<bar>) (- 1022) - 52 \<le> e"
  shows "2 powi e \<le> fl q"
proof -
  from ulp_divides_pow2 [OF assms(3)] obtain m where m: "2 powi e = of_int m * ulp q" ..
  then have "of_int m \<le> q / ulp q" using assms(2) by (simp add: pos_le_divide_eq)
  from round_even_mono [OF this] have "m \<le> round_even (q / ulp q)" by simp
  then have "of_int m * ulp q \<le> of_int (round_even (q / ulp q)) * ulp q"
    by (simp add: mult_right_mono)
  with m assms(1) show ?thesis by (simp add: fl_def)
qed

lemma fl_ge_pow2:
  assumes "0 < q" "2 powi e \<le> q" "- 1074 \<le> e"
  shows "2 powi e \<le> fl q"
proof (cases "max (ilog 2 \<bar>q\<bar>) (- 1022) - 52 \<le> e")
  case True
  with assms show ?thesis by (intro fl_ge_pow2_aligned)
next
  case False
  with assms(1,3) have e: "e \<le> ilog 2 q" by simp
  from ilog_bounds [of 2 q] assms(1) have "2 powi ilog 2 q \<le> q" by simp
  with assms(1) have "2 powi ilog 2 q \<le> fl q"
    using False assms(3) by (intro fl_ge_pow2_aligned) simp_all
  moreover from e have "(2::rat) powi e \<le> 2 powi ilog 2 q" by (intro power_int_increasing) simp_all
  ultimately show ?thesis by linarith
qed

text \<open>Rounding is monotone on the non-negative numbers.\<close>

lemma fl_mono:
  assumes "0 \<le> x" "x \<le> y"
  shows "fl x \<le> fl y"
proof (cases "x = 0")
  case True
  with assms fl_nonneg [of y] show ?thesis by simp
next
  case False
  with assms have x: "0 < x" and y: "0 < y" by simp_all
  let ?ex = "max (ilog 2 \<bar>x\<bar>) (- 1022)" and ?ey = "max (ilog 2 \<bar>y\<bar>) (- 1022)"
  from ilog_bounds [of 2 x] x have "2 powi ilog 2 x \<le> x" by simp
  with assms(2) have "2 powi ilog 2 x \<le> y" by linarith
  from ilog_ge_of_pow2_le [OF y this] x y have le: "?ex \<le> ?ey" by simp
  show ?thesis
  proof (cases "?ex = ?ey")
    case True
    then have u: "ulp x = ulp y" by (simp add: ulp_def)
    from assms(2) have "x / ulp y \<le> y / ulp y"
      by (intro divide_right_mono) simp_all
    from round_even_mono [OF this]
    have "of_int (round_even (x / ulp y)) * ulp y \<le> of_int (round_even (y / ulp y)) * ulp y"
      by (simp add: mult_right_mono)
    with x y u show ?thesis by (simp add: fl_def)
  next
    case False
    with le x y have ey: "?ey = ilog 2 y" "ilog 2 x + 1 \<le> ilog 2 y" "- 1022 < ilog 2 y" by simp_all
    from ilog_bounds [of 2 x] x have "x < 2 powi (ilog 2 x + 1)" by simp
    also from ey(2) have "(2::rat) powi (ilog 2 x + 1) \<le> 2 powi ilog 2 y"
      by (intro power_int_increasing) simp_all
    finally have "x \<le> 2 powi ilog 2 y" by simp
    with x ey(3) have "fl x \<le> 2 powi ilog 2 y" by (intro fl_le_pow2) simp_all
    also from ilog_bounds [of 2 y] y ey(3) have "2 powi ilog 2 y \<le> fl y"
      by (intro fl_ge_pow2) simp_all
    finally show ?thesis .
  qed
qed

section \<open>Ratios and percentages\<close>

lemma to_double_Fin:
  assumes "0 \<le> q" "q \<le> 2 powi e" "- 1074 \<le> e" "e < 1024"
  shows "to_double q = Fin (fl q)"
proof -
  have "fl q \<le> 2 powi e"
  proof (cases "q = 0")
    case False
    with assms show ?thesis by (intro fl_le_pow2) simp_all
  qed simp
  also from assms(4) have "(2::rat) powi e < 2 powi 1024" by (intro power_int_strict_increasing) simp_all
  finally have "fl q < 2 ^ 1024" by simp
  moreover from fl_nonneg [OF assms(1)] have "\<not> fl q \<le> - (2 ^ 1024)" by simp
  ultimately show ?thesis by (simp add: to_double_def Let_def)
qed

text \<open>The percentage the progress bar computes: \<open>(k / n) * 100\<close> in doubles.\<close>

definition percent :: "int \<Rightarrow> int \<Rightarrow> rat" where
  "percent k n = fl (fl (of_int k / of_int n) * 100)"

lemma ratio_bounds:
  assumes "0 \<le> k" "k \<le> n" "0 < n"
  shows "0 \<le> fl (of_int k / of_int n)" "fl (of_int k / of_int n) \<le> 1"
proof -
  from assms have q: "0 \<le> (of_int k / of_int n :: rat)" "(of_int k / of_int n :: rat) \<le> 1"
    by simp_all
  from q(1) show "0 \<le> fl (of_int k / of_int n)" by (rule fl_nonneg)
  from fl_mono [OF q] show "fl (of_int k / of_int n) \<le> 1"
    using fl_of_int [of 1] by simp
qed

lemma progress_percent:
  assumes "0 \<le> k" "k \<le> n" "0 < n"
  shows "js_mul (js_div (num k) (num n)) (Fin 100) = Fin (percent k n)"
proof -
  note r = ratio_bounds [OF assms]
  from assms have "to_double (of_int k / of_int n) = Fin (fl (of_int k / of_int n))"
    by (intro to_double_Fin [of _ 0]) simp_all
  moreover from r have "fl (of_int k / of_int n) * 100 \<le> 2 powi 7"
    by simp
  with r(1) have "to_double (fl (of_int k / of_int n) * 100) = Fin (percent k n)"
    unfolding percent_def by (intro to_double_Fin [of _ 7]) simp_all
  ultimately show ?thesis using assms(3) by simp
qed

lemma percent_mono:
  assumes "0 \<le> k" "k \<le> k'" "0 < n"
  shows "percent k n \<le> percent k' n"
proof -
  from assms have "fl (of_int k / of_int n) \<le> fl (of_int k' / of_int n)"
    by (intro fl_mono) (simp_all add: divide_right_mono)
  moreover from assms have "0 \<le> fl (of_int k / of_int n)" by (intro fl_nonneg) simp
  ultimately show ?thesis unfolding percent_def by (intro fl_mono) simp_all
qed

lemma percent_nonneg: "0 \<le> k \<Longrightarrow> 0 < n \<Longrightarrow> 0 \<le> percent k n"
  unfolding percent_def by (intro fl_nonneg mult_nonneg_nonneg) simp_all

lemma percent_full: "0 < n \<Longrightarrow> percent n n = 100"
  using fl_of_int [of 1] fl_of_int [of 100] by (simp add: percent_def)

lemma fl_below_one: "fl (1 - 1 / 2 ^ 53) = 1 - 1 / 2 ^ 53"
  by code_simp

lemma fl_below_hundred: "fl ((1 - 1 / 2 ^ 53) * 100) < 100"
  by code_simp

lemma percent_less:
  assumes "0 \<le> k" "k < n" "n \<le> 2 ^ 53"
  shows "percent k n < 100"
proof -
  from assms(3) have "(of_int n :: rat) \<le> of_int (2 ^ 53)" by (simp only: of_int_le_iff)
  then have "(of_int n :: rat) \<le> 2 ^ 53" by (simp only: of_int_power of_int_numeral)
  moreover from assms(1,2) have "0 < (of_int n :: rat)" by simp
  ultimately have n: "0 < (of_int n :: rat)" "(of_int n :: rat) \<le> 2 ^ 53" by blast+
  then have "1 / 2 ^ 53 \<le> 1 / (of_int n :: rat)" by (intro divide_left_mono) simp_all
  moreover from assms(2) have "k \<le> n - 1" by simp
  then have "(of_int k :: rat) \<le> of_int (n - 1)" by (simp only: of_int_le_iff)
  then have "(of_int k :: rat) \<le> of_int n - 1" by simp
  then have "(of_int k / of_int n :: rat) \<le> (of_int n - 1) / of_int n"
    using n(1) by (intro divide_right_mono) simp_all
  then have "(of_int k / of_int n :: rat) \<le> 1 - 1 / of_int n"
    using n(1) by (simp add: diff_divide_distrib)
  ultimately have "(of_int k / of_int n :: rat) \<le> 1 - 1 / 2 ^ 53" by linarith
  moreover from assms(1,2) have k: "0 \<le> (of_int k / of_int n :: rat)" by simp
  ultimately have "fl (of_int k / of_int n) \<le> fl (1 - 1 / 2 ^ 53)" by (intro fl_mono)
  then have "fl (of_int k / of_int n) \<le> 1 - 1 / 2 ^ 53"
    by (simp only: fl_below_one)
  then have "fl (of_int k / of_int n) * 100 \<le> (1 - 1 / 2 ^ 53) * 100"
    by (intro mult_right_mono) simp_all
  moreover from k have "0 \<le> fl (of_int k / of_int n) * 100" by (simp add: fl_nonneg)
  ultimately have "percent k n \<le> fl ((1 - 1 / 2 ^ 53) * 100)"
    unfolding percent_def by (intro fl_mono)
  with fl_below_hundred show ?thesis by linarith
qed

lemma percent_pos:
  assumes "0 < k" "k \<le> n" "n \<le> 2 ^ 53"
  shows "0 < percent k n"
proof -
  from assms(3) have "(of_int n :: rat) \<le> of_int (2 ^ 53)" by (simp only: of_int_le_iff)
  then have "(of_int n :: rat) \<le> 2 ^ 53" by (simp only: of_int_power of_int_numeral)
  moreover from assms(1,2) have n: "0 < (of_int n :: rat)" by simp
  ultimately have "1 / 2 ^ 53 \<le> 1 / (of_int n :: rat)" by (intro divide_left_mono) simp_all
  also from assms(1) n have "1 / (of_int n :: rat) \<le> of_int k / of_int n"
    by (intro divide_right_mono) simp_all
  finally have lo: "2 powi (- 53) \<le> (of_int k / of_int n :: rat)"
    by (simp add: power_int_minus divide_simps)
  from assms(1) n have q: "0 < (of_int k / of_int n :: rat)" by simp
  from q lo have r: "2 powi (- 53) \<le> fl (of_int k / of_int n)" by (intro fl_ge_pow2) simp_all
  have p: "(0::rat) < 2 powi (- 53)" by simp
  from r p have "2 powi (- 53) \<le> fl (of_int k / of_int n) * 100" by linarith
  with p have "2 powi (- 53) \<le> percent k n"
    unfolding percent_def by (intro fl_ge_pow2) (linarith, simp_all)
  with p show ?thesis by linarith
qed

section \<open>The error of rounding\<close>

text \<open>
  Rounding to nearest moves a number by at most half a unit in its last
  place; for a number in the normal range that is at most the fraction
  \<open>2\<^sup>-\<^sup>5\<^sup>3\<close> of it.
\<close>

lemma round_even_error: "\<bar>of_int (round_even r) - r\<bar> \<le> 1 / 2"
  by (auto simp: round_even_def Let_def abs_if) linarith+

lemma fl_error: "\<bar>fl q - q\<bar> \<le> ulp q / 2"
proof (cases "q = 0")
  case False
  have "fl q - q = (of_int (round_even (q / ulp q)) - q / ulp q) * ulp q"
    using False by (simp add: fl_def algebra_simps)
  then have "\<bar>fl q - q\<bar> = \<bar>of_int (round_even (q / ulp q)) - q / ulp q\<bar> * ulp q"
    by (simp add: abs_mult)
  also have "\<dots> \<le> 1 / 2 * ulp q"
    by (intro mult_right_mono round_even_error) simp
  finally show ?thesis by simp
qed simp

lemma ulp_normal:
  assumes "2 powi (- 1022) \<le> \<bar>q\<bar>"
  shows "ulp q \<le> \<bar>q\<bar> / 2 ^ 52"
proof -
  from assms have pos: "0 < \<bar>q\<bar>" by (rule less_le_trans [rotated]) simp
  from ilog_ge_of_pow2_le [OF pos assms] have "ulp q = 2 powi (ilog 2 \<bar>q\<bar> - 52)"
    by (simp add: ulp_def max_def)
  also have "\<dots> = 2 powi ilog 2 \<bar>q\<bar> / 2 ^ 52"
    by (simp add: power_int_diff)
  also have "\<dots> \<le> \<bar>q\<bar> / 2 ^ 52"
    using ilog_bounds [of 2 "\<bar>q\<bar>"] pos by (intro divide_right_mono) simp_all
  finally show ?thesis .
qed

lemma fl_relative_error:
  assumes "2 powi (- 1022) \<le> \<bar>q\<bar>"
  shows "\<bar>fl q - q\<bar> \<le> \<bar>q\<bar> / 2 ^ 53"
  using fl_error [of q] ulp_normal [OF assms] by simp

section \<open>Printing integers\<close>

text \<open>
  The candidates of \<open>digits_at\<close> for an integer are integers, and integers
  up to \<open>2\<^sup>5\<^sup>3\<close> are doubles: a candidate rounds to the number only if it is
  the number.
\<close>

lemma digits_at_int:
  assumes m: "1 \<le> m" "m \<le> 2 ^ 52" and L: "10 ^ nat (L - 1) \<le> m" and k: "1 \<le> k" "int k \<le> L"
  shows "digits_at (of_int m) L k =
           (if 10 ^ nat (L - int k) dvd m then Some (m div 10 ^ nat (L - int k), L) else None)"
proof -
  let ?P = "10 ^ nat (L - int k) :: int"
  let ?lo = "m div ?P"
  have P: "0 < ?P" by simp
  have "?P \<le> 10 ^ nat (L - 1)" using k by (intro power_increasing) simp_all
  from this L have Pm: "?P \<le> m" by (rule order_trans)
  have p: "(10::rat) powi (L - int k) = of_int ?P" using k by (simp add: power_int_def)
  have lo: "\<lfloor>(of_int m :: rat) / of_int ?P\<rfloor> = ?lo" by (rule floor_divide_of_int_eq)
  have md: "m = ?lo * ?P + m mod ?P" by (rule div_mult_mod_eq [symmetric])
  have r: "0 \<le> m mod ?P" "m mod ?P < ?P" using P by simp_all
  have sp: "(?lo + 1) * ?P = ?lo * ?P + ?P" by (simp add: algebra_simps)
  from r md have le: "?lo * ?P \<le> m" by linarith
  from r md sp have gt: "m < (?lo + 1) * ?P" by linarith
  from m(1) P have "0 \<le> ?lo" by (simp add: pos_imp_zdiv_nonneg_iff)
  then have nn: "0 \<le> ?lo * ?P" by simp
  have two: "(2::int) ^ 53 = 2 * 2 ^ 52" by simp
  from nn le m(2) two have "\<bar>?lo * ?P\<bar> \<le> 2 ^ 53" by linarith
  then have "fl (of_int (?lo * ?P)) = of_int (?lo * ?P)" by (rule fl_of_int)
  then have "fl (of_int ?lo * of_int ?P) = of_int (?lo * ?P)" by (simp only: of_int_mult)
  moreover have "?lo * ?P = m \<longleftrightarrow> ?P dvd m"
    using md r by (auto simp: dvd_eq_mod_eq_0)
  ultimately have oklo: "(fl (of_int ?lo * of_int ?P) = of_int m) = (?P dvd m)"
    by (simp only: of_int_eq_iff)
  from nn le Pm m(2) sp two P have "\<bar>(?lo + 1) * ?P\<bar> \<le> 2 ^ 53" by linarith
  then have "fl (of_int ((?lo + 1) * ?P)) = of_int ((?lo + 1) * ?P)" by (rule fl_of_int)
  then have "fl (of_int (?lo + 1) * of_int ?P) = of_int ((?lo + 1) * ?P)" by (simp only: of_int_mult)
  with gt have okhi: "(fl (of_int (?lo + 1) * of_int ?P) = of_int m) = False"
    by (simp only: of_int_eq_iff) simp
  show ?thesis
    unfolding digits_at_def Let_def p lo by (simp only: oklo okhi) simp
qed

text \<open>
  With fuel for every digit count up to the length of the integer, \<open>shortest\<close>
  returns the integer without some of its trailing zeros.
\<close>

lemma shortest_int:
  assumes m: "1 \<le> m" "m \<le> 2 ^ 52" and L: "10 ^ nat (L - 1) \<le> m"
    and k: "1 \<le> k" "int k \<le> L" and f: "L < int f + int k"
  shows "\<exists>j. int j < L \<and> 10 ^ j dvd m \<and> shortest f (of_int m) L k = Some (m div 10 ^ j, L)"
  using k f
proof (induction f arbitrary: k)
  case (Suc f)
  note d = digits_at_int [OF m L Suc.prems(1,2)]
  show ?case
  proof (cases "10 ^ nat (L - int k) dvd m")
    case True
    with d Suc.prems show ?thesis by (intro exI [of _ "nat (L - int k)"]) simp
  next
    case False
    then have "int k \<noteq> L" by auto
    with Suc.prems have "1 \<le> Suc k" "int (Suc k) \<le> L" "L < int f + int (Suc k)" by simp_all
    from Suc.IH [OF this] d False show ?thesis by simp
  qed
qed simp

lemma decimal_exponent_int:
  assumes "1 \<le> m" "m \<le> 2 ^ 52"
  shows "0 \<le> ilog 10 (of_int m)" "ilog 10 (of_int m) \<le> 15"
    "10 ^ nat (ilog 10 (of_int m)) \<le> m" "m < 10 ^ nat (ilog 10 (of_int m) + 1)"
proof -
  let ?e = "ilog 10 (of_int m)"
  from assms(1) ilog_bounds [of 10 "of_int m"]
  have b: "(10::rat) powi ?e \<le> of_int m" "of_int m < (10::rat) powi (?e + 1)" by simp_all
  show e0: "0 \<le> ?e"
  proof (rule ccontr)
    assume "\<not> 0 \<le> ?e"
    then have "(10::rat) powi (?e + 1) \<le> 10 powi 0" by (intro power_int_increasing) simp_all
    with b(2) assms(1) show False by simp
  qed
  show "?e \<le> 15"
  proof (rule ccontr)
    assume "\<not> ?e \<le> 15"
    then have "(10::rat) powi 16 \<le> 10 powi ?e" by (intro power_int_increasing) simp_all
    with b(1) have "(of_int (10 ^ 16) :: rat) \<le> of_int m" by simp
    then have "10 ^ 16 \<le> m" by (simp only: of_int_le_iff)
    with assms(2) show False by simp
  qed
  from e0 b have "(of_int (10 ^ nat ?e) :: rat) \<le> of_int m" "(of_int m :: rat) < of_int (10 ^ nat (?e + 1))"
    by (simp_all add: power_int_def)
  then show "10 ^ nat ?e \<le> m" "m < 10 ^ nat (?e + 1)"
    by (simp_all only: of_int_le_iff of_int_less_iff)
qed

lemma pos_to_string_int:
  assumes "1 \<le> m" "m \<le> 2 ^ 52"
  shows "pos_to_string (of_int m) = decimal (nat m)"
proof -
  let ?L = "ilog 10 (of_int m) + 1"
  note e = decimal_exponent_int [OF assms]
  from assms have x: "fl (of_int m) = of_int m" by (intro fl_of_int) simp
  from e(1,3) have "10 ^ nat (?L - 1) \<le> m" by simp
  from shortest_int [OF assms this, of 1 17] e(1,2)
  obtain j where j: "int j < ?L" "10 ^ j dvd m" "shortest 17 (of_int m) ?L 1 = Some (m div 10 ^ j, ?L)"
    by auto
  let ?s = "nat (m div 10 ^ j)"
  from j(2) assms(1) have s: "0 < ?s" "nat m = ?s * 10 ^ j"
    by (auto simp: pos_imp_zdiv_pos_iff zdvd_imp_le nat_mult_distrib nat_power_eq elim!: dvdE)
  then have d: "decimal (nat m) = decimal ?s @ replicate j CHR ''0''" by (simp add: decimal_shift)
  from e have "length (decimal (nat m)) = Suc (nat (ilog 10 (of_int m)))"
    by (intro length_decimal_unique) (simp_all add: nat_le_iff nat_less_iff nat_add_distrib)
  with d e(1) have "int (length (decimal ?s)) = ?L - int j" by simp
  with j(1,3) e(2) d show ?thesis
    by (simp add: pos_to_string_def x format_digits_def Let_def)
qed

lemma Number_toString_num:
  assumes "0 \<le> m" "m \<le> 2 ^ 52"
  shows "Number_toString (num m) = decimal (nat m)"
proof (cases "m = 0")
  case False
  with assms pos_to_string_int [of m] show ?thesis by simp
qed (simp add: decimal_small)

text \<open>
  C29 (equivalence). \<open>Number::toString\<close>, the search for the shortest digit
  string that rounds to the number, prints every integer up to \<open>2\<^sup>5\<^sup>2\<close> as
  its decimal numeral, with a minus sign when it is negative.
\<close>

theorem Number_toString_int:
  assumes "0 \<le> m" "m \<le> 2 ^ 52"
  shows "Number_toString (num m) = decimal (nat m) \<and>
         Number_toString (num (- m)) = (if m = 0 then ''0'' else CHR ''-'' # decimal (nat m))"
proof (cases "m = 0")
  case False
  with assms pos_to_string_int [of m] show ?thesis by simp
qed (simp add: decimal_small)

theorem Number_toString_int_witness:
  "Number_toString (Fin 4096) = ''4096'' \<and> Number_toString (Fin (- 4096)) = ''-4096''"
proof -
  have "decimal 4096 = ''4096''" by code_simp
  with Number_toString_int [of 4096] show ?thesis by simp
qed

text \<open>
  C32 (termination). The digit search of \<open>Number::toString\<close> runs on fuel: it
  tries the digit counts 1 to 17. On every positive integer up to \<open>2\<^sup>5\<^sup>2\<close> the
  fuel is enough: the search returns digits, and the digits followed by the
  zeros it has left out are the integer.
\<close>

theorem shortest_fuel_suffices:
  assumes "1 \<le> m" "m \<le> 2 ^ 52"
  shows "\<exists>s j. shortest 17 (fl (of_int m)) (ilog 10 (fl (of_int m)) + 1) 1 =
                  Some (s, ilog 10 (of_int m) + 1) \<and>
               m = s * 10 ^ j \<and> int j \<le> ilog 10 (of_int m)"
proof -
  note e = decimal_exponent_int [OF assms]
  from assms have x: "fl (of_int m) = of_int m" by (intro fl_of_int) simp
  from e(1,3) have "10 ^ nat (ilog 10 (of_int m) + 1 - 1) \<le> m" by simp
  from shortest_int [OF assms this, of 1 17] e(1,2)
  obtain j where "int j \<le> ilog 10 (of_int m)" "10 ^ j dvd m"
    "shortest 17 (of_int m) (ilog 10 (of_int m) + 1) 1 = Some (m div 10 ^ j, ilog 10 (of_int m) + 1)"
    by auto
  then show ?thesis unfolding x by (intro exI [of _ "m div 10 ^ j"] exI [of _ j]) simp
qed

theorem shortest_fuel_suffices_witness:
  "\<exists>s j. shortest 17 (fl 1200) (ilog 10 (fl 1200) + 1) 1 = Some (s, ilog 10 1200 + 1) \<and>
          (1200::int) = s * 10 ^ j \<and> int j \<le> ilog 10 1200"
  using shortest_fuel_suffices [of 1200] by simp

text \<open>
  C24 (bounds). The width that \<open>updateProgressBar\<close> computes in doubles, with
  one rounding in the division and one in the multiplication, differs from
  the exact percentage \<open>100 k / n\<close> by at most the fraction \<open>2\<^sup>-\<^sup>5\<^sup>1\<close> of it, for
  every position \<open>k\<close> of every deck of up to \<open>2\<^sup>5\<^sup>3\<close> slides.
\<close>

theorem percent_accuracy:
  assumes "1 \<le> k" "k \<le> n" "n \<le> 2 ^ 53"
  shows "\<bar>percent k n - 100 * of_int k / of_int n\<bar> \<le> (100 * of_int k / of_int n) / 2 ^ 51"
proof -
  define q :: rat where "q = of_int k / of_int n"
  define r where "r = fl q"
  have small: "(2::rat) powi (- 1022) \<le> 1 / 2 ^ 54"
    by (simp add: power_int_minus field_simps)
  from assms have "1 / 2 ^ 53 \<le> (1 :: rat) / of_int n" "(1 :: rat) / of_int n \<le> q"
    by (simp_all add: q_def field_simps)
  then have q: "1 / 2 ^ 53 \<le> q" by (rule order_trans)
  with small have "2 powi (- 1022) \<le> \<bar>q\<bar>" by simp
  from fl_relative_error [OF this] q have r: "\<bar>r - q\<bar> \<le> q / 2 ^ 53"
    by (simp add: r_def)
  with q small have "2 powi (- 1022) \<le> \<bar>r * 100\<bar>" by (simp add: abs_if split: if_splits)
  from fl_relative_error [OF this] have "\<bar>percent k n - r * 100\<bar> \<le> \<bar>r * 100\<bar> / 2 ^ 53"
    by (simp add: percent_def r_def q_def)
  with r q have "\<bar>percent k n - 100 * q\<bar> \<le> 100 * q / 2 ^ 51"
    by (simp add: abs_if split: if_splits)
  then show ?thesis by (simp add: q_def)
qed

theorem percent_accuracy_witness:
  "\<bar>percent 1 3 - 100 / 3\<bar> \<le> 100 / 3 / 2 ^ 51"
  using percent_accuracy [of 1 3] by simp

end
