(* ===== verification/Dom.thy ===== *)
theory Dom
  imports Prelude "HOL-Library.Sublist" "HOL-Library.AList"
begin

text \<open>
  The part of the host page that \<open>src/app.js\<close> reads and writes: a tree of
  elements and text nodes rooted at the \<open>body\<close> element, addressed by paths.
  The operations are the DOM calls of the source: \<open>getElementById\<close>,
  \<open>querySelector\<close> and \<open>querySelectorAll\<close> for the selectors it uses,
  \<open>classList.add\<close> and \<open>classList.remove\<close>, \<open>setAttribute\<close>, the
  \<open>textContent\<close> getter and setter, \<open>createElement\<close> and \<open>appendChild\<close>.
  The lemmas say what each update leaves unchanged, so that the methods of
  the presentation can be followed field by field.
\<close>

section \<open>Elements and trees\<close>

record element =
  tagName :: string
  elem_id :: string
  classList :: "string list"
  attrs :: "(string \<times> string) list"
  disabled :: bool
  style_width :: string

datatype node = TextNode string | Elem element "node list"

definition createElement :: "string \<Rightarrow> node" where
  "createElement t =
     Elem \<lparr>tagName = t, elem_id = [], classList = [], attrs = [],
           disabled = False, style_width = []\<rparr> []"

fun node_at :: "node \<Rightarrow> path \<Rightarrow> node option" where
  "node_at n [] = Some n"
| "node_at (TextNode s) (i # p) = None"
| "node_at (Elem e ks) (i # p) = (if i < length ks then node_at (ks ! i) p else None)"

fun map_at :: "path \<Rightarrow> (node \<Rightarrow> node) \<Rightarrow> node \<Rightarrow> node" where
  "map_at [] f n = f n"
| "map_at (i # p) f (TextNode s) = TextNode s"
| "map_at (i # p) f (Elem e ks) =
     (if i < length ks then Elem e (ks[i := map_at p f (ks ! i)]) else Elem e ks)"

fun elem_of :: "node \<Rightarrow> element option" where
  "elem_of (Elem e ks) = Some e"
| "elem_of (TextNode s) = None"

definition elem_at :: "node \<Rightarrow> path \<Rightarrow> element option" where
  "elem_at d p = Option.bind (node_at d p) elem_of"

fun on_elem :: "(element \<Rightarrow> element) \<Rightarrow> node \<Rightarrow> node" where
  "on_elem g (Elem e ks) = Elem (g e) ks"
| "on_elem g (TextNode s) = TextNode s"

definition upd_elem :: "path \<Rightarrow> (element \<Rightarrow> element) \<Rightarrow> node \<Rightarrow> node" where
  "upd_elem p g = map_at p (on_elem g)"

section \<open>Text content\<close>

primrec text_of :: "node \<Rightarrow> string" and texts_of :: "node list \<Rightarrow> string" where
  "text_of (TextNode s) = s"
| "text_of (Elem e ks) = texts_of ks"
| "texts_of [] = []"
| "texts_of (k # ks) = text_of k @ texts_of ks"

definition textContent :: "node \<Rightarrow> path \<Rightarrow> string option" where
  "textContent d p = map_option text_of (node_at d p)"

fun with_text :: "string \<Rightarrow> node \<Rightarrow> node" where
  "with_text s (Elem e ks) = Elem e (if s = [] then [] else [TextNode s])"
| "with_text s (TextNode t) = TextNode s"

definition set_textContent :: "path \<Rightarrow> string \<Rightarrow> node \<Rightarrow> node" where
  "set_textContent p s = map_at p (with_text s)"

section \<open>Classes and attributes\<close>

definition classList_add :: "string \<Rightarrow> element \<Rightarrow> element" where
  "classList_add c e = (if c \<in> set (classList e) then e else e\<lparr>classList := classList e @ [c]\<rparr>)"

definition classList_remove :: "string list \<Rightarrow> element \<Rightarrow> element" where
  "classList_remove cs e = e\<lparr>classList := filter (\<lambda>c. c \<notin> set cs) (classList e)\<rparr>"

definition setAttribute :: "string \<Rightarrow> string \<Rightarrow> element \<Rightarrow> element" where
  "setAttribute a v e = e\<lparr>attrs := AList.update a v (attrs e)\<rparr>"

definition getAttribute :: "string \<Rightarrow> element \<Rightarrow> string option" where
  "getAttribute a e = map_of (attrs e) a"

section \<open>Tree order and selectors\<close>

primrec paths_of :: "node \<Rightarrow> path list" and paths_from :: "nat \<Rightarrow> node list \<Rightarrow> path list" where
  "paths_of (TextNode s) = []"
| "paths_of (Elem e ks) = [] # paths_from 0 ks"
| "paths_from i [] = []"
| "paths_from i (k # ks) = map ((#) i) (paths_of k) @ paths_from (Suc i) ks"

datatype selector =
    ById string
  | ByClass string
  | ByAttr string string
  | Descendant selector selector
  | Or selector selector

fun matches :: "node \<Rightarrow> selector \<Rightarrow> path \<Rightarrow> bool" where
  "matches d (ById i) p = (case elem_at d p of Some e \<Rightarrow> i \<noteq> [] \<and> elem_id e = i | None \<Rightarrow> False)"
| "matches d (ByClass c) p = (case elem_at d p of Some e \<Rightarrow> c \<in> set (classList e) | None \<Rightarrow> False)"
| "matches d (ByAttr a v) p = (case elem_at d p of Some e \<Rightarrow> getAttribute a e = Some v | None \<Rightarrow> False)"
| "matches d (Descendant a s) p = (matches d s p \<and> list_ex (matches d a) (butlast (prefixes p)))"
| "matches d (Or s t) p = (matches d s p \<or> matches d t p)"

definition querySelectorAll :: "selector \<Rightarrow> node \<Rightarrow> path list" where
  "querySelectorAll s d = filter (matches d s) (paths_of d)"

definition querySelector :: "selector \<Rightarrow> node \<Rightarrow> path option" where
  "querySelector s d = find (matches d s) (paths_of d)"

definition getElementById :: "string \<Rightarrow> node \<Rightarrow> path option" where
  "getElementById i d = querySelector (ById i) d"

section \<open>Growing the tree\<close>

fun appendChild :: "node \<Rightarrow> node \<Rightarrow> node" where
  "appendChild c (Elem e ks) = Elem e (ks @ [c])"
| "appendChild c (TextNode s) = TextNode s"

fun child_count :: "node \<Rightarrow> nat" where
  "child_count (Elem e ks) = length ks"
| "child_count (TextNode s) = 0"

section \<open>Lookup after update\<close>

lemma node_at_map_at_same [simp]: "node_at (map_at p f d) p = map_option f (node_at d p)"
  by (induction p f d rule: map_at.induct) simp_all

lemma node_at_map_at_other:
  "\<not> prefix p q \<Longrightarrow> \<not> prefix q p \<Longrightarrow> node_at (map_at p f d) q = node_at d q"
proof (induction p f d arbitrary: q rule: map_at.induct)
  case (3 i p f e ks)
  then obtain j r where q: "q = j # r" by (cases q) auto
  with 3 show ?case by (auto simp: nth_list_update)
qed simp_all

lemma node_at_map_at_below:
  "node_at (map_at p f d) (p @ r) = Option.bind (node_at d p) (\<lambda>n. node_at (f n) r)"
  by (induction p f d rule: map_at.induct) simp_all

lemma elem_of_map_at_cons: "elem_of (map_at (i # p) f n) = elem_of n"
  by (cases n) simp_all

lemma elem_at_map_at_above:
  "strict_prefix q p \<Longrightarrow> elem_at (map_at p f d) q = elem_at d q"
proof (induction p f d arbitrary: q rule: map_at.induct)
  case (1 f n)
  then show ?case by simp
next
  case (2 i p f s)
  then show ?case by simp
next
  case (3 i p f e ks)
  show ?case
  proof (cases q)
    case Nil
    then show ?thesis by (simp add: elem_at_def)
  next
    case (Cons j r)
    with "3.prems" have j: "j = i" and r: "strict_prefix r p" by auto
    show ?thesis
    proof (cases "i < length ks")
      case True
      with "3.IH" [OF True r] show ?thesis by (simp add: Cons j elem_at_def)
    next
      case False
      then show ?thesis by simp
    qed
  qed
qed

lemma node_at_append:
  "node_at d (p @ r) = Option.bind (node_at d p) (\<lambda>n. node_at n r)"
  by (induction d p rule: node_at.induct) simp_all

lemma node_at_on_elem_below [simp]: "r \<noteq> [] \<Longrightarrow> node_at (on_elem g n) r = node_at n r"
  by (cases n; cases r) simp_all

lemma elem_of_on_elem [simp]: "elem_of (on_elem g n) = map_option g (elem_of n)"
  by (cases n) simp_all

lemma elem_of_with_text [simp]: "elem_of (with_text s n) = elem_of n"
  by (cases n) simp_all

lemma node_at_with_text_below:
  "r \<noteq> [] \<Longrightarrow> Option.bind (node_at (with_text s n) r) elem_of = None"
proof (cases r)
  case (Cons j r')
  then show ?thesis by (cases n; cases r') simp_all
qed simp

text \<open>The three positions of a second path relative to an updated one.\<close>

lemma path_cases [case_names same below above other]:
  assumes "q = p \<Longrightarrow> P" "\<And>r. r \<noteq> [] \<Longrightarrow> q = p @ r \<Longrightarrow> P"
    "strict_prefix q p \<Longrightarrow> P" "\<not> prefix p q \<Longrightarrow> \<not> prefix q p \<Longrightarrow> P"
  shows P
proof (cases "prefix p q")
  case True
  then obtain r where "q = p @ r" by (auto simp: prefix_def)
  with assms(1,2) show P by (cases "r = []") auto
next
  case False
  with assms(3,4) show P by (cases "prefix q p") (auto simp: strict_prefix_def)
qed

lemma elem_at_upd_elem [frame]:
  "elem_at (upd_elem p g d) q = (if q = p then map_option g (elem_at d p) else elem_at d q)"
proof (cases q p rule: path_cases)
  case same
  then show ?thesis
    by (cases "node_at d p") (simp_all add: elem_at_def upd_elem_def)
next
  case (below r)
  then show ?thesis
    by (cases "node_at d p") (simp_all add: elem_at_def upd_elem_def node_at_map_at_below node_at_append)
next
  case above
  then show ?thesis
    by (auto simp: upd_elem_def elem_at_map_at_above)
next
  case other
  then have "q \<noteq> p" by auto
  with other show ?thesis by (simp add: elem_at_def upd_elem_def node_at_map_at_other)
qed

lemma elem_at_set_textContent [frame]:
  "elem_at (set_textContent p s d) q = (if strict_prefix p q then None else elem_at d q)"
proof (cases q p rule: path_cases)
  case same
  then show ?thesis
    by (cases "node_at d p") (simp_all add: elem_at_def set_textContent_def)
next
  case (below r)
  then have "strict_prefix p q" by (simp add: strict_prefix_def)
  with below show ?thesis
    by (cases "node_at d p")
      (simp_all add: elem_at_def set_textContent_def node_at_map_at_below node_at_with_text_below)
next
  case above
  then have "\<not> strict_prefix p q" by (auto simp: strict_prefix_def)
  with above show ?thesis by (simp add: set_textContent_def elem_at_map_at_above)
next
  case other
  then have "\<not> strict_prefix p q" by (auto simp: strict_prefix_def)
  with other show ?thesis by (simp add: elem_at_def set_textContent_def node_at_map_at_other)
qed

section \<open>Tree order\<close>

lemma elem_at_Nil [simp]: "elem_at d [] = elem_of d"
  by (simp add: elem_at_def)

lemma elem_at_Cons_Elem [simp]:
  "elem_at (Elem e ks) (i # p) = (if i < length ks then elem_at (ks ! i) p else None)"
  by (simp add: elem_at_def)

lemma elem_at_Cons_TextNode [simp]: "elem_at (TextNode s) (i # p) = None"
  by (simp add: elem_at_def)

lemma paths_from_head:
  "q \<in> set (paths_from i ks) \<Longrightarrow> \<exists>l r. q = l # r \<and> i \<le> l \<and> l < i + length ks"
proof (induction ks arbitrary: i)
  case (Cons k ks)
  from Cons.prems Cons.IH [of "Suc i"] show ?case by auto
qed simp

lemma paths_from_Cons: "q \<in> set (paths_from i ks) \<Longrightarrow> q \<noteq> []"
  by (auto dest: paths_from_head)

lemma not_below_paths_from:
  "m < i \<or> i + length ks \<le> m \<Longrightarrow>
     filter (\<lambda>q. \<not> strict_prefix (m # p) q) (paths_from i ks) = paths_from i ks"
  by (rule filter_True) (auto dest!: paths_from_head)

lemma in_paths_from:
  assumes "\<And>k p. k \<in> set ks \<Longrightarrow> p \<in> set (paths_of k) \<longleftrightarrow> elem_at k p \<noteq> None"
  shows "j # p \<in> set (paths_from i ks) \<longleftrightarrow>
    i \<le> j \<and> j - i < length ks \<and> elem_at (ks ! (j - i)) p \<noteq> None"
  using assms
proof (induction ks arbitrary: i)
  case (Cons k ks)
  show ?case
  proof (cases "j = i")
    case True
    with Cons.prems [of k p] show ?thesis by (auto dest!: paths_from_head)
  next
    case False
    then have "i < j \<Longrightarrow> j - i = Suc (j - Suc i)" by simp
    with False Cons.IH [of "Suc i"] Cons.prems show ?thesis
      by (cases "i < j") auto
  qed
qed simp

lemma in_paths_of [simp]: "p \<in> set (paths_of d) \<longleftrightarrow> elem_at d p \<noteq> None"
proof (induction d arbitrary: p)
  case (TextNode s)
  show ?case by (cases p) simp_all
next
  case (Elem e ks)
  show ?case
  proof (cases p)
    case Nil
    then show ?thesis using paths_from_Cons [of "[]" 0 ks] by auto
  next
    case (Cons j r)
    with in_paths_from [of ks j r 0] Elem show ?thesis by simp
  qed
qed

lemma paths_from_update:
  "paths_of k = paths_of (ks ! i) \<Longrightarrow> paths_from j (ks[i := k]) = paths_from j ks"
proof (induction ks arbitrary: i j)
  case (Cons a ks)
  then show ?case by (cases i) simp_all
qed simp

lemma paths_of_map_at:
  "(\<And>n. paths_of (f n) = paths_of n) \<Longrightarrow> paths_of (map_at p f d) = paths_of d"
  by (induction p f d rule: map_at.induct) (simp_all add: paths_from_update)

lemma paths_of_on_elem [simp]: "paths_of (on_elem g n) = paths_of n"
  by (cases n) simp_all

lemma paths_of_upd_elem [simp, frame]: "paths_of (upd_elem p g d) = paths_of d"
  by (simp add: upd_elem_def paths_of_map_at)

lemma paths_from_append:
  "paths_from i (ks @ [c]) = paths_from i ks @ map ((#) (i + length ks)) (paths_of c)"
  by (induction ks arbitrary: i) simp_all

lemma paths_of_appendChild:
  "paths_of (appendChild c (Elem e ks)) = paths_of (Elem e ks) @ map ((#) (length ks)) (paths_of c)"
  by (simp add: paths_from_append)

lemma elem_at_appendChild [frame]:
  "elem_at (appendChild c d) q =
     (case q of [] \<Rightarrow> elem_of d
      | i # r \<Rightarrow> if elem_of d \<noteq> None \<and> i = child_count d then elem_at c r else elem_at d q)"
  by (cases d; cases q) (auto simp: nth_append)

text \<open>Setting the text of an element removes the elements below it and no other.\<close>

lemma paths_from_set_text:
  assumes "i < length ks"
    and "paths_of k = filter (\<lambda>q. \<not> strict_prefix p q) (paths_of (ks ! i))"
  shows "paths_from j (ks[i := k]) = filter (\<lambda>q. \<not> strict_prefix ((j + i) # p) q) (paths_from j ks)"
  using assms
proof (induction ks arbitrary: i j)
  case (Cons a ks)
  show ?case
  proof (cases i)
    case 0
    with Cons.prems not_below_paths_from [of j "Suc j" ks p] show ?thesis
      by (simp add: filter_map comp_def)
  next
    case (Suc i')
    with Cons.prems Cons.IH [of i' "Suc j"] show ?thesis
      by (simp add: filter_map comp_def)
  qed
qed simp

lemma paths_of_set_textContent [frame]:
  "paths_of (set_textContent p s d) = filter (\<lambda>q. \<not> strict_prefix p q) (paths_of d)"
  unfolding set_textContent_def
proof (induction p "with_text s" d rule: map_at.induct)
  case (1 n)
  show ?case
  proof (cases n)
    case (Elem e ks)
    have "filter (\<lambda>q. \<not> strict_prefix [] q) (paths_from 0 ks) = []"
      by (auto simp: filter_empty_conv dest!: paths_from_head)
    with Elem show ?thesis by simp
  qed simp
next
  case (2 i p t)
  show ?case by simp
next
  case (3 i p e ks)
  show ?case
  proof (cases "i < length ks")
    case True
    with 3 paths_from_set_text [of i ks _ p 0] show ?thesis by simp
  next
    case False
    with not_below_paths_from [of i 0 ks p] show ?thesis by simp
  qed
qed

section \<open>Paths beside each other\<close>

text \<open>
  Two elements of which neither contains the other have \<open>parallel\<close> paths.
  An update at one of them is invisible at the other.
\<close>

lemma parallel_neq: "p \<parallel> q \<Longrightarrow> p \<noteq> q"
  by auto

lemma parallel_not_strict_prefix: "p \<parallel> q \<Longrightarrow> \<not> strict_prefix p q" "p \<parallel> q \<Longrightarrow> \<not> strict_prefix q p"
  by (auto simp: strict_prefix_def)

lemma parallel_fresh_child:
  assumes "elem_at d p \<noteq> None" "p \<noteq> []"
  shows "(child_count d # r) \<parallel> p"
proof -
  from assms(2) obtain i r where p: "p = i # r" by (cases p) auto
  with assms(1) have "i < child_count d"
    by (cases d) (auto simp: elem_at_def split: if_splits)
  with p show ?thesis by (auto simp: parallel_def prefix_def)
qed

section \<open>Text after update\<close>

lemma texts_of_update:
  "i < length ks \<Longrightarrow> text_of k = text_of (ks ! i) \<Longrightarrow> texts_of (ks[i := k]) = texts_of ks"
proof (induction ks arbitrary: i)
  case (Cons a ks)
  then show ?case by (cases i) simp_all
qed simp

lemma text_of_on_elem [simp]: "text_of (on_elem g n) = text_of n"
  by (cases n) simp_all

lemma text_of_map_at_on_elem [simp]: "text_of (map_at p (on_elem g) n) = text_of n"
proof (induction p "on_elem g" n rule: map_at.induct)
  case (1 n)
  then show ?case by (cases n) simp_all
next
  case (3 i p e ks)
  then show ?case by (simp add: texts_of_update)
qed simp

lemma node_at_map_at_above:
  "node_at (map_at (q @ r) f d) q = map_option (map_at r f) (node_at d q)"
proof (induction q arbitrary: d)
  case (Cons i q)
  then show ?case by (cases d) simp_all
qed simp

lemma text_of_with_text [simp]: "text_of (with_text s n) = s"
  by (cases n) simp_all

lemma textContent_upd_elem [simp, frame]: "textContent (upd_elem p g d) q = textContent d q"
proof (cases q p rule: path_cases)
  case same
  then show ?thesis
    by (cases "node_at d p") (simp_all add: textContent_def upd_elem_def)
next
  case (below r)
  then show ?thesis
    by (cases "node_at d p")
      (simp_all add: textContent_def upd_elem_def node_at_map_at_below node_at_append)
next
  case above
  then obtain r where "p = q @ r" by (auto simp: strict_prefix_def prefix_def)
  then show ?thesis
    by (cases "node_at d q") (simp_all add: textContent_def upd_elem_def node_at_map_at_above)
next
  case other
  then show ?thesis by (simp add: textContent_def upd_elem_def node_at_map_at_other)
qed

lemma textContent_set_textContent_same:
  "textContent (set_textContent p s d) p = map_option (\<lambda>n. s) (node_at d p)"
  by (cases "node_at d p") (simp_all add: textContent_def set_textContent_def)

lemma textContent_set_textContent_elem [simp]:
  "elem_at d p \<noteq> None \<Longrightarrow> textContent (set_textContent p s d) p = Some s"
  by (cases "node_at d p") (simp_all add: textContent_set_textContent_same elem_at_def)

lemma textContent_set_textContent_other [frame]:
  "p \<parallel> q \<Longrightarrow> textContent (set_textContent p s d) q = textContent d q"
  by (simp add: textContent_def set_textContent_def node_at_map_at_other parallel_def)

lemma elem_at_set_textContent_other [frame]:
  "p \<parallel> q \<Longrightarrow> elem_at (set_textContent p s d) q = elem_at d q"
  by (simp add: elem_at_set_textContent parallel_not_strict_prefix)

lemma elem_at_set_textContent_same [simp]:
  "elem_at (set_textContent p s d) p = elem_at d p"
  by (simp add: elem_at_set_textContent)

lemma elem_at_upd_elem_other [frame]:
  "p \<parallel> q \<Longrightarrow> elem_at (upd_elem p g d) q = elem_at d q"
  by (auto simp: elem_at_upd_elem)

lemma elem_at_upd_elem_same [simp]:
  "elem_at (upd_elem p g d) p = map_option g (elem_at d p)"
  by (simp add: elem_at_upd_elem)

lemma elem_of_appendChild [simp]: "elem_of (appendChild c d) = elem_of d"
  by (cases d) simp_all

lemma node_at_appendChild:
  "i < child_count d \<Longrightarrow> node_at (appendChild c d) (i # r) = node_at d (i # r)"
  by (cases d) (simp_all add: nth_append)

lemma textContent_appendChild [frame]:
  "elem_at d p \<noteq> None \<Longrightarrow> p \<noteq> [] \<Longrightarrow> textContent (appendChild c d) p = textContent d p"
proof -
  assume a: "elem_at d p \<noteq> None" "p \<noteq> []"
  then obtain i r where p: "p = i # r" by (cases p) auto
  with a(1) have "i < child_count d"
    by (cases d) (auto simp: elem_at_def split: if_splits)
  with p show ?thesis by (simp add: textContent_def node_at_appendChild)
qed

lemma elem_at_appendChild_old [frame]:
  "elem_at d p \<noteq> None \<Longrightarrow> p \<noteq> [] \<Longrightarrow> elem_at (appendChild c d) p = elem_at d p"
proof -
  assume a: "elem_at d p \<noteq> None" "p \<noteq> []"
  then obtain i r where p: "p = i # r" by (cases p) auto
  with a(1) have "i < child_count d"
    by (cases d) (auto simp: elem_at_def split: if_splits)
  with p show ?thesis by (simp add: elem_at_def node_at_appendChild)
qed

lemma elem_at_appendChild_new:
  "elem_of d \<noteq> None \<Longrightarrow> elem_at (appendChild c d) [child_count d] = elem_of c"
  by (cases d) (simp_all add: elem_at_def nth_append)

text \<open>Writing the same text twice is writing it once.\<close>

lemma map_at_map_at: "map_at p f (map_at p g d) = map_at p (f \<circ> g) d"
  by (induction p g d rule: map_at.induct) simp_all

lemma with_text_idem [simp]: "with_text s (with_text s n) = with_text s n"
  by (cases n) simp_all

lemma set_textContent_idem [simp]:
  "set_textContent p s (set_textContent p s d) = set_textContent p s d"
proof -
  have "with_text s \<circ> with_text s = with_text s" by (rule ext) simp
  then show ?thesis by (simp add: set_textContent_def map_at_map_at)
qed

section \<open>Updates of many elements\<close>

lemma paths_of_fold_upd_elem [simp, frame]:
  "paths_of (fold (\<lambda>p. upd_elem p g) ps d) = paths_of d"
  by (induction ps arbitrary: d) simp_all

text \<open>Applying an idempotent change to a list of elements changes each of them once.\<close>

lemma elem_at_fold_upd_elem [frame]:
  assumes "\<And>e. g (g e) = g e"
  shows "elem_at (fold (\<lambda>p. upd_elem p g) ps d) q =
           (if q \<in> set ps then map_option g (elem_at d q) else elem_at d q)"
proof (induction ps arbitrary: d)
  case (Cons p ps)
  show ?case
    by (cases "elem_at d q") (auto simp: Cons.IH elem_at_upd_elem assms)
qed simp

lemma classList_remove_idem [simp]:
  "classList_remove cs (classList_remove cs e) = classList_remove cs e"
  by (simp add: classList_remove_def)

lemma elem_at_appendChild_keep [frame]:
  "elem_at d p \<noteq> None \<Longrightarrow> elem_at (appendChild c d) p = elem_at d p"
  by (cases p) (simp_all add: elem_at_appendChild_old)

text \<open>An attribute selector finds the same element when no attribute has changed.\<close>

lemma querySelector_ByAttr_cong:
  assumes "paths_of d' = paths_of d"
    "\<And>q. map_option attrs (elem_at d' q) = map_option attrs (elem_at d q)"
  shows "querySelector (ByAttr a v) d' = querySelector (ByAttr a v) d"
proof -
  have "matches d' (ByAttr a v) q = matches d (ByAttr a v) q" for q
    using assms(2) [of q]
    by (cases "elem_at d q"; cases "elem_at d' q") (auto simp: getAttribute_def)
  then have "matches d' (ByAttr a v) = matches d (ByAttr a v)" by (intro ext)
  then show ?thesis by (simp only: querySelector_def assms(1))
qed

lemma attrs_classList_updates [simp]:
  "attrs (classList_add c e) = attrs e" "attrs (classList_remove cs e) = attrs e"
  by (simp_all add: classList_add_def classList_remove_def)

lemma classList_classList_add [simp]: "c \<in> set (classList (classList_add c e))"
  by (simp add: classList_add_def)

lemma classList_classList_remove [simp]:
  "c \<in> set (classList (classList_remove cs e)) \<longleftrightarrow> c \<in> set (classList e) \<and> c \<notin> set cs"
  by (auto simp: classList_remove_def)

lemma classList_add_other [simp]:
  "c' \<noteq> c \<Longrightarrow> c' \<in> set (classList (classList_add c e)) \<longleftrightarrow> c' \<in> set (classList e)"
  by (simp add: classList_add_def)

section \<open>Attribute selectors after an update\<close>

text \<open>
  The elements that carry an attribute. An attribute selector finds the same
  element after an update that keeps the attributes and removes no element
  that carries the attribute.
\<close>

definition has_attr :: "string \<Rightarrow> node \<Rightarrow> path \<Rightarrow> bool" where
  "has_attr a d q = (case elem_at d q of Some e \<Rightarrow> getAttribute a e \<noteq> None | None \<Rightarrow> False)"

lemma matches_ByAttr_has_attr: "matches d (ByAttr a v) q \<Longrightarrow> has_attr a d q"
  by (auto simp: has_attr_def split: option.splits)

lemma has_attr_elem: "has_attr a d q \<Longrightarrow> elem_at d q \<noteq> None"
  by (auto simp: has_attr_def split: option.splits)

lemma has_attr_upd_elem [simp]:
  "(\<And>e. attrs (g e) = attrs e) \<Longrightarrow> has_attr a (upd_elem p g d) q = has_attr a d q"
  by (auto simp: has_attr_def elem_at_upd_elem getAttribute_def split: option.splits)

lemma has_attr_set_textContent [simp]:
  "has_attr a (set_textContent p s d) q \<longleftrightarrow> has_attr a d q \<and> \<not> strict_prefix p q"
  by (simp add: has_attr_def elem_at_set_textContent)

lemma has_attr_appendChild:
  assumes "\<And>r. \<not> has_attr a c r" "has_attr a (appendChild c d) q"
  shows "has_attr a d q"
  using assms(2) assms(1) [of "tl q"]
  by (cases q) (auto simp: has_attr_def elem_at_appendChild split: if_splits)

lemma querySelector_ByAttr_upd_elem [simp]:
  "(\<And>e. attrs (g e) = attrs e) \<Longrightarrow>
     querySelector (ByAttr a v) (upd_elem p g d) = querySelector (ByAttr a v) d"
  by (rule querySelector_ByAttr_cong) (simp_all add: elem_at_upd_elem option.map_comp comp_def)

lemma querySelector_ByAttr_set_textContent:
  assumes "\<And>q. has_attr a d q \<Longrightarrow> \<not> strict_prefix p q"
  shows "querySelector (ByAttr a v) (set_textContent p s d) = querySelector (ByAttr a v) d"
proof -
  let ?keep = "filter (\<lambda>q. \<not> strict_prefix p q) (paths_of d)"
  have "find (matches (set_textContent p s d) (ByAttr a v)) ?keep = find (matches d (ByAttr a v)) ?keep"
    by (rule find_cong_set) (simp add: elem_at_set_textContent)
  also have "\<dots> = find (matches d (ByAttr a v)) (paths_of d)"
    by (rule find_filter) (use assms matches_ByAttr_has_attr in blast)
  finally show ?thesis by (simp add: querySelector_def paths_of_set_textContent)
qed

lemma querySelector_ByAttr_appendChild:
  assumes "\<And>r. \<not> has_attr a c r"
  shows "querySelector (ByAttr a v) (appendChild c d) = querySelector (ByAttr a v) d"
proof (cases d)
  case (Elem e ks)
  have new: "\<not> matches (appendChild c d) (ByAttr a v) q" if "q \<in> set (map ((#) (length ks)) (paths_of c))" for q
  proof -
    from that obtain r where "q = length ks # r" by auto
    with assms [of r] show ?thesis
      by (auto simp: Elem elem_at_appendChild has_attr_def split: option.splits)
  qed
  have "querySelector (ByAttr a v) (appendChild c d) =
        find (matches (appendChild c d) (ByAttr a v)) (paths_of d @ map ((#) (length ks)) (paths_of c))"
    by (simp only: querySelector_def Elem paths_of_appendChild)
  also have "\<dots> = find (matches (appendChild c d) (ByAttr a v)) (paths_of d)"
    by (rule find_append_None) (rule new)
  also have "\<dots> = find (matches d (ByAttr a v)) (paths_of d)"
    by (rule find_cong_set) (simp add: elem_at_appendChild_keep)
  finally show ?thesis by (simp only: querySelector_def)
qed simp

end
