(* ===== verification/Controller.thy ===== *)
theory Controller
  imports Prelude
begin

text \<open>
  The slide controller as the specification describes it: a position in
  \<open>[1, N]\<close> over a deck of fixed size \<open>N\<close>, moved by \<open>goTo\<close>, \<open>next\<close>,
  \<open>previous\<close> and \<open>reset\<close>, all guarded by one bounds check, and the
  display derived from the position: the state and label of the two
  controls and the progress ratio. This is the contract that the class
  \<open>Presentation\<close> is shown to implement.
\<close>

section \<open>The bounded counter\<close>

record controller =
  pos :: int
  count :: int

definition ctl_goTo :: "int \<Rightarrow> controller \<Rightarrow> controller" where
  "ctl_goTo target c = (if target < 1 \<or> count c < target then c else c\<lparr>pos := target\<rparr>)"

definition ctl_next :: "controller \<Rightarrow> controller" where
  "ctl_next c = ctl_goTo (pos c + 1) c"

definition ctl_previous :: "controller \<Rightarrow> controller" where
  "ctl_previous c = ctl_goTo (pos c - 1) c"

definition ctl_reset :: "controller \<Rightarrow> controller" where
  "ctl_reset c = ctl_goTo 1 c"

record ctl_info =
  info_position :: int
  info_total :: int
  info_isFirst :: bool
  info_isLast :: bool

definition ctl_getInfo :: "controller \<Rightarrow> ctl_info" where
  "ctl_getInfo c =
     \<lparr>info_position = pos c, info_total = count c,
      info_isFirst = (pos c = 1), info_isLast = (pos c = count c)\<rparr>"

definition ctl_ok :: "controller \<Rightarrow> bool" where
  "ctl_ok c \<longleftrightarrow> 1 \<le> pos c \<and> pos c \<le> count c"

section \<open>Commands\<close>

datatype command = Next | Previous | GoTo int | Reset

fun ctl_step :: "command \<Rightarrow> controller \<Rightarrow> controller" where
  "ctl_step Next c = ctl_next c"
| "ctl_step Previous c = ctl_previous c"
| "ctl_step (GoTo n) c = ctl_goTo n c"
| "ctl_step Reset c = ctl_reset c"

definition ctl_run :: "command list \<Rightarrow> controller \<Rightarrow> controller" where
  "ctl_run cs c = fold ctl_step cs c"

section \<open>The derived display\<close>

record control_view =
  is_disabled :: bool
  label :: string

definition prev_label :: string where
  "prev_label = [CHR 0xE2, CHR 0x86, CHR 0x90] @ '' Previous''"

definition next_label :: string where
  "next_label = ''Next '' @ [CHR 0xE2, CHR 0x86, CHR 0x92]"

definition prev_control :: "controller \<Rightarrow> control_view" where
  "prev_control c =
     (if pos c = 1 then \<lparr>is_disabled = True, label = ''Start''\<rparr>
      else \<lparr>is_disabled = False, label = prev_label\<rparr>)"

definition next_control :: "controller \<Rightarrow> control_view" where
  "next_control c =
     (if pos c = count c then \<lparr>is_disabled = True, label = ''End''\<rparr>
      else \<lparr>is_disabled = False, label = next_label\<rparr>)"

definition progress_ratio :: "controller \<Rightarrow> rat" where
  "progress_ratio c = of_int (pos c) / of_int (count c)"

section \<open>Properties of the contract\<close>

lemma ctl_goTo_count [simp]: "count (ctl_goTo n c) = count c"
  by (simp add: ctl_goTo_def)

lemma ctl_step_count [simp]: "count (ctl_step cmd c) = count c"
  by (cases cmd) (simp_all add: ctl_next_def ctl_previous_def ctl_reset_def)

lemma ctl_ok_goTo [wf_keep]: "ctl_ok c \<Longrightarrow> ctl_ok (ctl_goTo n c)"
  by (simp add: ctl_ok_def ctl_goTo_def)

lemma ctl_ok_step [wf_keep]: "ctl_ok c \<Longrightarrow> ctl_ok (ctl_step cmd c)"
  by (cases cmd) (simp_all add: ctl_next_def ctl_previous_def ctl_reset_def ctl_ok_goTo)

lemma ctl_ok_run [wf_keep]: "ctl_ok c \<Longrightarrow> ctl_ok (ctl_run cs c)"
  unfolding ctl_run_def by (induction cs arbitrary: c) (simp_all add: ctl_ok_step)

lemma pos_ctl_next: "ctl_ok c \<Longrightarrow> pos (ctl_next c) = min (pos c + 1) (count c)"
  by (simp add: ctl_ok_def ctl_next_def ctl_goTo_def)

lemma pos_ctl_previous: "ctl_ok c \<Longrightarrow> pos (ctl_previous c) = max (pos c - 1) 1"
  by (simp add: ctl_ok_def ctl_previous_def ctl_goTo_def)

lemma progress_ratio_bounds:
  "ctl_ok c \<Longrightarrow> 0 < progress_ratio c \<and> progress_ratio c \<le> 1"
  by (simp add: ctl_ok_def progress_ratio_def)

lemma progress_ratio_full: "ctl_ok c \<Longrightarrow> progress_ratio c = 1 \<longleftrightarrow> pos c = count c"
  by (auto simp: ctl_ok_def progress_ratio_def)

lemma progress_ratio_mono:
  "count c = count c' \<Longrightarrow> 0 < count c \<Longrightarrow> pos c \<le> pos c' \<Longrightarrow> progress_ratio c \<le> progress_ratio c'"
  by (simp add: progress_ratio_def divide_right_mono)

end
