(* ===== verification/Presentation.thy ===== *)
theory Presentation
  imports JsNumber Dom
begin

text \<open>
  The class \<open>Presentation\<close> of \<open>src/app.js\<close>: its fields as a record, the
  state its methods act on (the object, the document, the registered
  listeners and the variables of the touch closure) and one definition per
  method, in the order of the source. A method takes the state and returns
  the state after it; the keyboard and touch handlers also return whether
  they suppressed the default action of the event.
\<close>

section \<open>State\<close>

record presentation =
  currentSlide :: jsnum
  totalSlides :: jsnum
  slides :: "path list"
  prevBtn :: "path option"
  nextBtn :: "path option"
  currentSlideSpan :: "path option"
  totalSlidesSpan :: "path option"
  progressFill :: "path option"

datatype target = Document | Element path

datatype callback = PrevBtnClick | NextBtnClick | KeyDown | TouchStart | TouchEnd

record listener =
  on_target :: target
  on_event :: string
  callback :: callback
  is_passive :: bool

record touch_vars =
  startX :: jsnum
  startY :: jsnum
  endX :: jsnum
  endY :: jsnum

record world =
  this :: presentation
  doc :: node
  listeners :: "listener list"
  touch :: touch_vars

definition addEventListener :: "target \<Rightarrow> string \<Rightarrow> callback \<Rightarrow> bool \<Rightarrow> world \<Rightarrow> world" where
  "addEventListener t ev cb pv w =
     w\<lparr>listeners := listeners w @ [\<lparr>on_target = t, on_event = ev, callback = cb, is_passive = pv\<rparr>]\<rparr>"

section \<open>Display updates\<close>

definition updateSlideDisplay :: "world \<Rightarrow> world" where
  "updateSlideDisplay w =
     (case currentSlideSpan (this w) of
        Some p \<Rightarrow> w\<lparr>doc := set_textContent p (Number_toString (currentSlide (this w))) (doc w)\<rparr>
      | None \<Rightarrow> w)"

text \<open>
  Assigning \<open>style.width\<close> takes effect only if the text is a valid width:
  a non-negative finite percentage. Otherwise the browser keeps the old value.
\<close>

fun set_width_percent :: "jsnum \<Rightarrow> element \<Rightarrow> element" where
  "set_width_percent (Fin q) e =
     (if 0 \<le> q then e\<lparr>style_width := Number_toString (Fin q) @ ''%''\<rparr> else e)"
| "set_width_percent _ e = e"

definition updateProgressBar :: "world \<Rightarrow> world" where
  "updateProgressBar w =
     (case progressFill (this w) of
        Some p \<Rightarrow>
          (let progress = js_mul (js_div (currentSlide (this w)) (totalSlides (this w))) (Fin 100)
           in w\<lparr>doc := upd_elem p (set_width_percent progress) (doc w)\<rparr>)
      | None \<Rightarrow> w)"

text \<open>The two arrows of the button labels, as UTF-8.\<close>

definition larrow :: string where
  "larrow = [CHR 0xE2, CHR 0x86, CHR 0x90]"

definition rarrow :: string where
  "rarrow = [CHR 0xE2, CHR 0x86, CHR 0x92]"

definition set_button :: "path \<Rightarrow> bool \<Rightarrow> string \<Rightarrow> string \<Rightarrow> node \<Rightarrow> node" where
  "set_button p off at_limit otherwise d =
     set_textContent p (if off then at_limit else otherwise)
       (upd_elem p (\<lambda>e. e\<lparr>disabled := off\<rparr>) d)"

definition updateNavButtons :: "world \<Rightarrow> world" where
  "updateNavButtons w =
     (let cur = currentSlide (this w);
          w1 = (case prevBtn (this w) of
                  Some p \<Rightarrow> w\<lparr>doc := set_button p (js_strict_eq cur (Fin 1))
                                   ''Start'' (larrow @ '' Previous'') (doc w)\<rparr>
                | None \<Rightarrow> w)
      in case nextBtn (this w1) of
           Some p \<Rightarrow> w1\<lparr>doc := set_button p (js_strict_eq cur (totalSlides (this w1)))
                             ''End'' (''Next '' @ rarrow) (doc w1)\<rparr>
         | None \<Rightarrow> w1)"

section \<open>Announcement\<close>

definition announcement_div :: node where
  "announcement_div =
     on_elem (\<lambda>e. (setAttribute ''aria-atomic'' ''true''
                     (setAttribute ''aria-live'' ''polite'' (e\<lparr>elem_id := ''slide-announcement''\<rparr>)))
                  \<lparr>classList := [''sr-only'']\<rparr>)
       (createElement ''div'')"

definition title_selector :: "string \<Rightarrow> selector" where
  "title_selector n =
     Or (Descendant (ByAttr ''data-slide'' n) (ByClass ''slide-title''))
       (Or (Descendant (ByAttr ''data-slide'' n) (ByClass ''main-title''))
           (Descendant (ByAttr ''data-slide'' n) (ByClass ''thank-you-title'')))"

definition slideTitle :: "string \<Rightarrow> node \<Rightarrow> string" where
  "slideTitle n d =
     (let found = (case querySelector (title_selector n) d of
                     Some t \<Rightarrow> (case textContent d t of Some s \<Rightarrow> s | None \<Rightarrow> [])
                   | None \<Rightarrow> [])
      in if found = [] then ''Slide '' @ n else found)"

definition announceSlideChange :: "world \<Rightarrow> world" where
  "announceSlideChange w =
     (let (d, a) = (case getElementById ''slide-announcement'' (doc w) of
                      Some a \<Rightarrow> (doc w, a)
                    | None \<Rightarrow> (appendChild announcement_div (doc w), [child_count (doc w)]));
          n = Number_toString (currentSlide (this w));
          title = slideTitle n d
      in w\<lparr>doc := set_textContent a
             (title @ ''. Slide '' @ n @ '' of '' @ Number_toString (totalSlides (this w))) d\<rparr>)"

section \<open>Navigation\<close>

definition goToSlide :: "jsnum \<Rightarrow> world \<Rightarrow> world" where
  "goToSlide slideNumber w =
     (if js_lt slideNumber (Fin 1) \<or> js_gt slideNumber (totalSlides (this w)) then w
      else
        let w1 = w\<lparr>doc := fold (\<lambda>p. upd_elem p (classList_remove [''active'', ''prev'']))
                              (slides (this w)) (doc w)\<rparr>;
            w2 = w1\<lparr>this := (this w1)\<lparr>currentSlide := slideNumber\<rparr>\<rparr>;
            w3 = (case querySelector
                         (ByAttr ''data-slide'' (Number_toString (currentSlide (this w2)))) (doc w2) of
                    Some p \<Rightarrow> w2\<lparr>doc := upd_elem p (classList_add ''active'') (doc w2)\<rparr>
                  | None \<Rightarrow> w2)
        in announceSlideChange (updateNavButtons (updateProgressBar (updateSlideDisplay w3))))"

definition nextSlide :: "world \<Rightarrow> world" where
  "nextSlide w =
     (if js_lt (currentSlide (this w)) (totalSlides (this w))
      then goToSlide (js_add (currentSlide (this w)) (Fin 1)) w else w)"

definition previousSlide :: "world \<Rightarrow> world" where
  "previousSlide w =
     (if js_gt (currentSlide (this w)) (Fin 1)
      then goToSlide (js_sub (currentSlide (this w)) (Fin 1)) w else w)"

definition navigateToSlide :: "jsnum \<Rightarrow> world \<Rightarrow> world" where
  "navigateToSlide slideNumber w = goToSlide slideNumber w"

definition reset :: "world \<Rightarrow> world" where
  "reset w = goToSlide (Fin 1) w"

record slide_info =
  current :: jsnum
  total :: jsnum
  isFirst :: bool
  isLast :: bool

definition getCurrentSlideInfo :: "world \<Rightarrow> slide_info" where
  "getCurrentSlideInfo w =
     \<lparr>current = currentSlide (this w), total = totalSlides (this w),
      isFirst = js_strict_eq (currentSlide (this w)) (Fin 1),
      isLast = js_strict_eq (currentSlide (this w)) (totalSlides (this w))\<rparr>"

section \<open>Input handlers\<close>

definition handleKeyPress :: "string \<Rightarrow> world \<Rightarrow> world \<times> bool" where
  "handleKeyPress k w =
     (if k = ''ArrowRight'' \<or> k = ''Space'' \<or> k = ''PageDown'' then (nextSlide w, True)
      else if k = ''ArrowLeft'' \<or> k = ''PageUp'' then (previousSlide w, True)
      else if k = ''Home'' then (goToSlide (Fin 1) w, True)
      else if k = ''End'' then (goToSlide (totalSlides (this w)) w, True)
      else if k = ''Escape'' then (goToSlide (Fin 1) w, True)
      else (w, False))"

definition touchstart :: "jsnum \<Rightarrow> jsnum \<Rightarrow> world \<Rightarrow> world" where
  "touchstart x y w = w\<lparr>touch := (touch w)\<lparr>startX := x, startY := y\<rparr>\<rparr>"

definition touchend :: "jsnum \<Rightarrow> jsnum \<Rightarrow> world \<Rightarrow> world" where
  "touchend x y w =
     (let w1 = w\<lparr>touch := (touch w)\<lparr>endX := x, endY := y\<rparr>\<rparr>;
          deltaX = js_sub (endX (touch w1)) (startX (touch w1));
          deltaY = js_sub (endY (touch w1)) (startY (touch w1))
      in if js_gt (Math_abs deltaX) (Math_abs deltaY) \<and> js_gt (Math_abs deltaX) (Fin 50)
         then (if js_gt deltaX (Fin 0) then previousSlide w1 else nextSlide w1)
         else w1)"

definition addTouchSupport :: "world \<Rightarrow> world" where
  "addTouchSupport w =
     (let w1 = w\<lparr>touch := \<lparr>startX = Fin 0, startY = Fin 0, endX = Fin 0, endY = Fin 0\<rparr>\<rparr>
      in case querySelector (ByClass ''presentation-container'') (doc w1) of
           Some c \<Rightarrow> addEventListener (Element c) ''touchend'' TouchEnd True
                      (addEventListener (Element c) ''touchstart'' TouchStart True w1)
         | None \<Rightarrow> w1)"

section \<open>Construction\<close>

definition init :: "world \<Rightarrow> world" where
  "init w =
     (let w1 = updateNavButtons (updateProgressBar (updateSlideDisplay w));
          w2 = (case prevBtn (this w1) of
                  Some p \<Rightarrow> addEventListener (Element p) ''click'' PrevBtnClick False w1
                | None \<Rightarrow> w1);
          w3 = (case nextBtn (this w2) of
                  Some p \<Rightarrow> addEventListener (Element p) ''click'' NextBtnClick False w2
                | None \<Rightarrow> w2);
          w4 = addTouchSupport (addEventListener Document ''keydown'' KeyDown False w3)
      in case totalSlidesSpan (this w4) of
           Some p \<Rightarrow> w4\<lparr>doc := set_textContent p (Number_toString (totalSlides (this w4))) (doc w4)\<rparr>
         | None \<Rightarrow> w4)"

text \<open>The fields as the constructor sets them, before it calls \<open>init\<close>.\<close>

definition new_object :: "node \<Rightarrow> presentation" where
  "new_object d =
     \<lparr>currentSlide = Fin 1, totalSlides = Fin 10,
      slides = querySelectorAll (ByClass ''slide'') d,
      prevBtn = getElementById ''prevBtn'' d,
      nextBtn = getElementById ''nextBtn'' d,
      currentSlideSpan = getElementById ''currentSlide'' d,
      totalSlidesSpan = getElementById ''totalSlides'' d,
      progressFill = getElementById ''progressFill'' d\<rparr>"

definition new_Presentation :: "node \<Rightarrow> listener list \<Rightarrow> world" where
  "new_Presentation d ls =
     init \<lparr>this = new_object d, doc = d, listeners = ls,
           touch = \<lparr>startX = Fin 0, startY = Fin 0, endX = Fin 0, endY = Fin 0\<rparr>\<rparr>"

section \<open>Events\<close>

datatype event = Click | Key string | TouchStartAt jsnum jsnum | TouchEndAt jsnum jsnum

fun event_type :: "event \<Rightarrow> string" where
  "event_type Click = ''click''"
| "event_type (Key k) = ''keydown''"
| "event_type (TouchStartAt x y) = ''touchstart''"
| "event_type (TouchEndAt x y) = ''touchend''"

fun run_callback :: "callback \<Rightarrow> event \<Rightarrow> world \<Rightarrow> world \<times> bool" where
  "run_callback PrevBtnClick ev w = (previousSlide w, True)"
| "run_callback NextBtnClick ev w = (nextSlide w, True)"
| "run_callback KeyDown (Key k) w = handleKeyPress k w"
| "run_callback TouchStart (TouchStartAt x y) w = (touchstart x y w, False)"
| "run_callback TouchEnd (TouchEndAt x y) w = (touchend x y w, False)"
| "run_callback _ _ w = (w, False)"

text \<open>
  Delivering an event to a target runs the listeners registered for that
  target and event type, in the order of registration. The result says
  whether a listener that may do so suppressed the default action. A click
  does not reach a disabled button.
\<close>

definition deliver :: "event \<Rightarrow> listener \<Rightarrow> world \<times> bool \<Rightarrow> world \<times> bool" where
  "deliver ev l st =
     (let (w', pd) = run_callback (callback l) ev (fst st)
      in (w', snd st \<or> (pd \<and> \<not> is_passive l)))"

definition dispatch :: "target \<Rightarrow> event \<Rightarrow> world \<Rightarrow> world \<times> bool" where
  "dispatch t ev w =
     fold (deliver ev)
       (filter (\<lambda>l. on_target l = t \<and> on_event l = event_type ev) (listeners w)) (w, False)"

definition click :: "path \<Rightarrow> world \<Rightarrow> world \<times> bool" where
  "click p w =
     (case elem_at (doc w) p of
        Some e \<Rightarrow> if disabled e then (w, False) else dispatch (Element p) Click w
      | None \<Rightarrow> (w, False))"

definition run_events :: "(target \<times> event) list \<Rightarrow> world \<Rightarrow> world" where
  "run_events evs w = fold (\<lambda>(t, ev) w. fst (dispatch t ev w)) evs w"

section \<open>The position\<close>

abbreviation position :: "world \<Rightarrow> int" where
  "position w \<equiv> int_of (currentSlide (this w))"

abbreviation deck_size :: "world \<Rightarrow> int" where
  "deck_size w \<equiv> int_of (totalSlides (this w))"

definition position_ok :: "world \<Rightarrow> bool" where
  "position_ok w \<longleftrightarrow>
     safe_int (currentSlide (this w)) \<and> safe_int (totalSlides (this w)) \<and>
     1 \<le> position w \<and> position w \<le> deck_size w"

lemma position_ok_cong: "this w = this w' \<Longrightarrow> position_ok w = position_ok w'"
  by (simp add: position_ok_def)

lemma position_okE:
  assumes "position_ok w"
  obtains k n where "currentSlide (this w) = num k" "totalSlides (this w) = num n"
    "1 \<le> k" "k \<le> n" "n \<le> 2 ^ 53"
proof -
  from assms obtain k n where kn: "currentSlide (this w) = num k" "\<bar>k\<bar> \<le> 2 ^ 53"
    "totalSlides (this w) = num n" "\<bar>n\<bar> \<le> 2 ^ 53"
    unfolding position_ok_def by (metis safe_intE)
  with assms have "1 \<le> k" "k \<le> n" by (simp_all add: position_ok_def)
  with kn show thesis by (intro that [of k n]) auto
qed

lemma position_okI:
  "currentSlide (this w) = num k \<Longrightarrow> totalSlides (this w) = num n \<Longrightarrow>
     1 \<le> k \<Longrightarrow> k \<le> n \<Longrightarrow> n \<le> 2 ^ 53 \<Longrightarrow> position_ok w"
  by (simp add: position_ok_def)

section \<open>What the display updates leave alone\<close>

lemma updateSlideDisplay_frame [simp, frame]:
  "this (updateSlideDisplay w) = this w" "listeners (updateSlideDisplay w) = listeners w"
  "touch (updateSlideDisplay w) = touch w"
  by (simp_all add: updateSlideDisplay_def split: option.splits)

lemma updateProgressBar_frame [simp, frame]:
  "this (updateProgressBar w) = this w" "listeners (updateProgressBar w) = listeners w"
  "touch (updateProgressBar w) = touch w"
  by (simp_all add: updateProgressBar_def Let_def split: option.splits)

lemma updateNavButtons_frame [simp, frame]:
  "this (updateNavButtons w) = this w" "listeners (updateNavButtons w) = listeners w"
  "touch (updateNavButtons w) = touch w"
  by (simp_all add: updateNavButtons_def Let_def split: option.splits)

lemma announceSlideChange_frame [simp, frame]:
  "this (announceSlideChange w) = this w" "listeners (announceSlideChange w) = listeners w"
  "touch (announceSlideChange w) = touch w"
  by (simp_all add: announceSlideChange_def Let_def split: option.splits prod.splits)

lemma goToSlide_frame [simp, frame]:
  "listeners (goToSlide n w) = listeners w" "touch (goToSlide n w) = touch w"
  by (simp_all add: goToSlide_def Let_def split: option.splits)

lemma this_goToSlide:
  "this (goToSlide n w) =
     (if js_lt n (Fin 1) \<or> js_gt n (totalSlides (this w)) then this w
      else (this w)\<lparr>currentSlide := n\<rparr>)"
  by (simp add: goToSlide_def Let_def split: option.splits)

lemma nextSlide_frame [simp, frame]:
  "listeners (nextSlide w) = listeners w" "touch (nextSlide w) = touch w"
  by (simp_all add: nextSlide_def)

lemma previousSlide_frame [simp, frame]:
  "listeners (previousSlide w) = listeners w" "touch (previousSlide w) = touch w"
  by (simp_all add: previousSlide_def)

lemma addEventListener_frame [simp, frame]:
  "this (addEventListener t ev cb pv w) = this w" "doc (addEventListener t ev cb pv w) = doc w"
  "touch (addEventListener t ev cb pv w) = touch w"
  by (simp_all add: addEventListener_def)

lemma addTouchSupport_frame [simp, frame]:
  "this (addTouchSupport w) = this w" "doc (addTouchSupport w) = doc w"
  by (simp_all add: addTouchSupport_def Let_def split: option.splits)

lemma this_init [simp, frame]: "this (init w) = this w"
  by (simp add: init_def Let_def split: option.splits)

lemma new_object_simps [simp]:
  "currentSlide (new_object d) = Fin 1" "totalSlides (new_object d) = Fin 10"
  by (simp_all add: new_object_def)

lemma this_new_Presentation [simp]: "this (new_Presentation d ls) = new_object d"
  by (simp add: new_Presentation_def)

section \<open>The position under each operation\<close>

lemma goToSlide_out_of_range:
  assumes "totalSlides (this w) = num n" "x < 1 \<or> n < x"
  shows "goToSlide (num x) w = w"
  using assms by (auto simp: goToSlide_def)

lemma this_goToSlide_in_range:
  assumes "totalSlides (this w) = num n" "1 \<le> x" "x \<le> n"
  shows "this (goToSlide (num x) w) = (this w)\<lparr>currentSlide := num x\<rparr>"
  using assms by (simp add: this_goToSlide)

lemma this_nextSlide:
  assumes "position_ok w"
  shows "this (nextSlide w) = (this w)\<lparr>currentSlide := num (min (position w + 1) (deck_size w))\<rparr>"
proof -
  from assms obtain k n where kn: "currentSlide (this w) = num k" "totalSlides (this w) = num n"
    "1 \<le> k" "k \<le> n" "n \<le> 2 ^ 53" by (rule position_okE)
  show ?thesis
  proof (cases "k < n")
    case True
    with kn have "js_add (num k) (Fin 1) = num (k + 1)"
      using js_add_num [of k 1] by simp
    with True kn show ?thesis
      by (simp add: nextSlide_def this_goToSlide min_def)
  next
    case False
    with kn have "(this w)\<lparr>currentSlide := num k\<rparr> = this w"
      by (metis presentation.surjective presentation.update_convs(1))
    with False kn show ?thesis by (simp add: nextSlide_def min_def)
  qed
qed

lemma this_previousSlide:
  assumes "position_ok w"
  shows "this (previousSlide w) = (this w)\<lparr>currentSlide := num (max (position w - 1) 1)\<rparr>"
proof -
  from assms obtain k n where kn: "currentSlide (this w) = num k" "totalSlides (this w) = num n"
    "1 \<le> k" "k \<le> n" "n \<le> 2 ^ 53" by (rule position_okE)
  show ?thesis
  proof (cases "1 < k")
    case True
    with kn have "js_sub (num k) (Fin 1) = num (k - 1)"
      using js_sub_num [of k 1] by simp
    with True kn show ?thesis
      by (simp add: previousSlide_def this_goToSlide max_def)
  next
    case False
    with kn have k: "k = 1" by simp
    with kn have "(this w)\<lparr>currentSlide := Fin 1\<rparr> = this w"
      by (metis of_int_1 presentation.surjective presentation.update_convs(1))
    with k kn show ?thesis by (simp add: previousSlide_def max_def)
  qed
qed

section \<open>The position stays in range\<close>

lemma position_ok_moved:
  assumes "position_ok w" "this w' = (this w)\<lparr>currentSlide := num k\<rparr>" "1 \<le> k" "k \<le> deck_size w"
  shows "position_ok w'"
proof -
  from assms(1) obtain n where "totalSlides (this w) = num n" "n \<le> 2 ^ 53"
    by (auto elim: position_okE)
  with assms(2-4) show ?thesis by (intro position_okI [of w' k n]) simp_all
qed

lemma position_ok_nextSlide [wf_keep]: "position_ok w \<Longrightarrow> position_ok (nextSlide w)"
  by (rule position_ok_moved [OF _ this_nextSlide]) (auto simp: position_ok_def)

lemma position_ok_previousSlide [wf_keep]: "position_ok w \<Longrightarrow> position_ok (previousSlide w)"
  by (rule position_ok_moved [OF _ this_previousSlide]) (auto simp: position_ok_def)

lemma position_ok_goToSlide [wf_keep]:
  assumes "position_ok w" "safe_int n"
  shows "position_ok (goToSlide n w)"
proof -
  from assms(2) obtain x where x: "n = num x" by (auto elim: safe_intE)
  from assms(1) obtain m where m: "totalSlides (this w) = num m" by (auto elim: position_okE)
  show ?thesis
  proof (cases "x < 1 \<or> m < x")
    case True
    with assms(1) m show ?thesis by (simp add: x goToSlide_out_of_range)
  next
    case False
    with m have "this (goToSlide n w) = (this w)\<lparr>currentSlide := num x\<rparr>"
      by (simp add: x this_goToSlide_in_range)
    moreover from False m have "1 \<le> x" "x \<le> deck_size w" by simp_all
    ultimately show ?thesis by (rule position_ok_moved [OF assms(1)])
  qed
qed

lemma position_ok_goToSlide_num [wf_keep]:
  assumes "position_ok w"
  shows "position_ok (goToSlide (num x) w)"
proof -
  from assms obtain m where m: "totalSlides (this w) = num m" "m \<le> 2 ^ 53"
    by (auto elim: position_okE)
  show ?thesis
  proof (cases "x < 1 \<or> m < x")
    case True
    with assms m show ?thesis by (simp add: goToSlide_out_of_range)
  next
    case False
    with m have "safe_int (num x)" by simp
    with assms show ?thesis by (rule position_ok_goToSlide)
  qed
qed

lemma position_ok_goToSlide_1 [wf_keep]: "position_ok w \<Longrightarrow> position_ok (goToSlide (Fin 1) w)"
  using position_ok_goToSlide [of w "num 1"] by simp

lemma position_ok_goToSlide_total [wf_keep]:
  "position_ok w \<Longrightarrow> position_ok (goToSlide (totalSlides (this w)) w)"
  by (rule position_ok_goToSlide) (simp_all add: position_ok_def)

lemma position_ok_touch [simp]: "position_ok (w\<lparr>touch := t\<rparr>) = position_ok w"
  by (simp add: position_ok_def)

lemma position_ok_handleKeyPress [wf_keep]:
  "position_ok w \<Longrightarrow> position_ok (fst (handleKeyPress k w))"
  by (simp add: handleKeyPress_def wf_keep)

lemma position_ok_touchstart [wf_keep]: "position_ok w \<Longrightarrow> position_ok (touchstart x y w)"
  by (simp add: touchstart_def)

lemma position_ok_touchend [wf_keep]: "position_ok w \<Longrightarrow> position_ok (touchend x y w)"
  by (simp add: touchend_def Let_def wf_keep)

lemma position_ok_run_callback [wf_keep]:
  "position_ok w \<Longrightarrow> position_ok (fst (run_callback cb ev w))"
  by (cases "(cb, ev, w)" rule: run_callback.cases) (simp_all add: wf_keep)

lemma position_ok_deliver [wf_keep]:
  "position_ok (fst st) \<Longrightarrow> position_ok (fst (deliver ev l st))"
  using position_ok_run_callback [of "fst st" "callback l" ev]
  by (cases "run_callback (callback l) ev (fst st)") (simp add: deliver_def)

lemma position_ok_fold_deliver:
  "position_ok (fst st) \<Longrightarrow> position_ok (fst (fold (deliver ev) ls st))"
  by (induction ls arbitrary: st) (simp_all add: position_ok_deliver)

lemma position_ok_dispatch [wf_keep]:
  "position_ok w \<Longrightarrow> position_ok (fst (dispatch t ev w))"
  by (simp add: dispatch_def position_ok_fold_deliver)

lemma position_ok_updateSlideDisplay [wf_keep]:
  "position_ok w \<Longrightarrow> position_ok (updateSlideDisplay w)"
  by (simp add: position_ok_def)

text \<open>The constructor starts every page at the first of ten slides.\<close>

lemma position_ok_new_Presentation [wf_keep]: "position_ok (new_Presentation d ls)"
  by (simp add: position_ok_def)

lemma position_ok_click [wf_keep]: "position_ok w \<Longrightarrow> position_ok (fst (click p w))"
  by (simp add: click_def position_ok_dispatch split: option.splits)

lemma position_ok_run_events [wf_keep]: "position_ok w \<Longrightarrow> position_ok (run_events evs w)"
  unfolding run_events_def by (induction evs arbitrary: w) (auto simp: position_ok_dispatch)


section \<open>Every callback is a navigation\<close>

text \<open>
  Whatever a listener does to the object and the document it does through
  \<open>goToSlide\<close>, with an integral target: a property that \<open>goToSlide\<close> keeps
  and that does not depend on the touch variables is kept by every event.
\<close>

lemma nextSlide_cases:
  assumes "position_ok w"
  obtains "nextSlide w = w" | n where "safe_int n" "nextSlide w = goToSlide n w"
proof -
  from assms obtain k m where km: "currentSlide (this w) = num k" "totalSlides (this w) = num m"
    "1 \<le> k" "k \<le> m" "m \<le> 2 ^ 53" by (rule position_okE)
  show thesis
  proof (cases "k < m")
    case True
    with km have "safe_int (js_add (num k) (Fin 1))"
      using js_add_num [of k 1] by simp
    moreover have "nextSlide w = goToSlide (js_add (num k) (Fin 1)) w"
      unfolding nextSlide_def km using True by simp
    ultimately show thesis by (rule that(2))
  next
    case False
    with km that(1) show thesis by (simp add: nextSlide_def)
  qed
qed

lemma previousSlide_cases:
  assumes "position_ok w"
  obtains "previousSlide w = w" | n where "safe_int n" "previousSlide w = goToSlide n w"
proof -
  from assms obtain k m where km: "currentSlide (this w) = num k" "totalSlides (this w) = num m"
    "1 \<le> k" "k \<le> m" "m \<le> 2 ^ 53" by (rule position_okE)
  show thesis
  proof (cases "1 < k")
    case True
    with km have "safe_int (js_sub (num k) (Fin 1))"
      using js_sub_num [of k 1] by simp
    moreover have "previousSlide w = goToSlide (js_sub (num k) (Fin 1)) w"
      unfolding previousSlide_def km using True by simp
    ultimately show thesis by (rule that(2))
  next
    case False
    with km that(1) show thesis by (simp add: previousSlide_def)
  qed
qed

lemma navigation_preserves:
  assumes go: "\<And>w n. I w \<Longrightarrow> position_ok w \<Longrightarrow> safe_int n \<Longrightarrow> I (goToSlide n w)"
    and "I w" "position_ok w"
  shows "I (nextSlide w)" "I (previousSlide w)" "I (goToSlide (Fin 1) w)"
    "I (goToSlide (totalSlides (this w)) w)"
proof -
  show "I (nextSlide w)"
    by (rule nextSlide_cases [OF assms(3)]) (simp_all add: go assms(2,3))
  show "I (previousSlide w)"
    by (rule previousSlide_cases [OF assms(3)]) (simp_all add: go assms(2,3))
  from go [OF assms(2,3), of "num 1"] show "I (goToSlide (Fin 1) w)" by simp
  from assms(3) have "safe_int (totalSlides (this w))" by (simp add: position_ok_def)
  with assms(2,3) show "I (goToSlide (totalSlides (this w)) w)" by (rule go)
qed

lemma goToSlide_num_preserves:
  assumes go: "\<And>w n. I w \<Longrightarrow> position_ok w \<Longrightarrow> safe_int n \<Longrightarrow> I (goToSlide n w)"
    and "I w" "position_ok w"
  shows "I (goToSlide (num k) w)"
proof -
  from assms(3) obtain m where m: "totalSlides (this w) = num m" "m \<le> 2 ^ 53"
    by (auto elim: position_okE)
  show ?thesis
  proof (cases "k < 1 \<or> m < k")
    case True
    with m assms(2) show ?thesis by (simp add: goToSlide_out_of_range)
  next
    case False
    with m have "safe_int (num k)" by simp
    with assms(2,3) show ?thesis by (rule go)
  qed
qed

lemma run_callback_preserves:
  assumes go: "\<And>w n. I w \<Longrightarrow> position_ok w \<Longrightarrow> safe_int n \<Longrightarrow> I (goToSlide n w)"
    and touch: "\<And>w t. I (w\<lparr>touch := t\<rparr>) = I w"
    and "I w" "position_ok w"
  shows "I (fst (run_callback cb ev w))"
proof -
  note nav = navigation_preserves [of I, OF go]
  show ?thesis
  proof (cases "(cb, ev, w)" rule: run_callback.cases)
    case (3 k w')
    with assms(3,4) show ?thesis by (simp add: handleKeyPress_def nav)
  next
    case (5 x y w')
    let ?w1 = "w\<lparr>touch := (touch w)\<lparr>endX := x, endY := y\<rparr>\<rparr>"
    from assms(3,4) have "I ?w1" "position_ok ?w1" by (simp_all add: touch)
    with 5 show ?thesis by (simp add: touchend_def Let_def nav)
  qed (use assms(3,4) in \<open>simp_all add: nav touch touchstart_def\<close>)
qed

lemma dispatch_preserves:
  assumes go: "\<And>w n. I w \<Longrightarrow> position_ok w \<Longrightarrow> safe_int n \<Longrightarrow> I (goToSlide n w)"
    and touch: "\<And>w t. I (w\<lparr>touch := t\<rparr>) = I w"
    and "I w" "position_ok w"
  shows "I (fst (dispatch t ev w))"
proof -
  have "I (fst (fold (deliver ev) ls st)) \<and> position_ok (fst (fold (deliver ev) ls st))"
    if "I (fst st)" "position_ok (fst st)" for ls st
    using that
  proof (induction ls arbitrary: st)
    case (Cons l ls)
    have "fst (deliver ev l st) = fst (run_callback (callback l) ev (fst st))"
      by (cases "run_callback (callback l) ev (fst st)") (simp add: deliver_def)
    with Cons.prems have "I (fst (deliver ev l st))" "position_ok (fst (deliver ev l st))"
      by (simp_all add: run_callback_preserves [of I, OF go touch] position_ok_run_callback)
    with Cons.IH show ?case by simp
  qed simp
  with assms(3,4) show ?thesis by (simp add: dispatch_def)
qed

text \<open>No event changes a field of the object other than the current slide.\<close>

definition same_object :: "world \<Rightarrow> world \<Rightarrow> bool" where
  "same_object w w' \<longleftrightarrow>
     totalSlides (this w') = totalSlides (this w) \<and> slides (this w') = slides (this w) \<and>
     prevBtn (this w') = prevBtn (this w) \<and> nextBtn (this w') = nextBtn (this w) \<and>
     currentSlideSpan (this w') = currentSlideSpan (this w) \<and>
     totalSlidesSpan (this w') = totalSlidesSpan (this w) \<and>
     progressFill (this w') = progressFill (this w)"

lemma same_object_refl [simp]: "same_object w w"
  by (simp add: same_object_def)

lemma same_object_fields:
  assumes "same_object w w'"
  shows "prevBtn (this w') = prevBtn (this w)" "nextBtn (this w') = nextBtn (this w)"
    "currentSlideSpan (this w') = currentSlideSpan (this w)"
    "totalSlidesSpan (this w') = totalSlidesSpan (this w)"
    "progressFill (this w') = progressFill (this w)" "slides (this w') = slides (this w)"
    "totalSlides (this w') = totalSlides (this w)"
  using assms by (simp_all add: same_object_def)

lemma same_object_goToSlide: "same_object w w' \<Longrightarrow> same_object w (goToSlide n w')"
  by (simp add: same_object_def this_goToSlide)

lemma same_object_touch [simp]: "same_object w (w'\<lparr>touch := t\<rparr>) = same_object w w'"
  by (simp add: same_object_def)

lemma same_object_dispatch:
  assumes "position_ok w'" "same_object w w'"
  shows "same_object w (fst (dispatch t ev w'))"
  using assms(2,1)
  by (rule dispatch_preserves [where I = "same_object w", rotated 2])
    (simp_all add: same_object_goToSlide)

lemma same_object_run_events:
  "position_ok w' \<Longrightarrow> same_object w w' \<Longrightarrow> same_object w (run_events evs w')"
  unfolding run_events_def
  by (induction evs arbitrary: w') (auto simp: same_object_dispatch position_ok_dispatch)

section \<open>A sample page\<close>

text \<open>
  A page that follows the host markup contract: ten slides numbered by
  \<open>data-slide\<close> inside the presentation container, each with a title, the
  progress bar and the four controls. \<open>sample_page\<close> is the markup as
  loaded, \<open>sample_world\<close> the state of the program once the constructor has
  run on it. The theorems below are instantiated on it.
\<close>

definition sample_el :: "string \<Rightarrow> string \<Rightarrow> string list \<Rightarrow> (string \<times> string) list \<Rightarrow> element" where
  "sample_el t i cs as =
     \<lparr>tagName = t, elem_id = i, classList = cs, attrs = as, disabled = False, style_width = []\<rparr>"

definition sample_slide :: "nat \<Rightarrow> string list \<Rightarrow> string \<Rightarrow> node" where
  "sample_slide k cs title =
     Elem (sample_el ''div'' [] (''slide'' # cs) [(''data-slide'', decimal k)])
       [Elem (sample_el ''h2'' [] [''slide-title''] []) [TextNode title]]"

definition sample_deck :: node where
  "sample_deck =
     Elem (sample_el ''div'' [] [''presentation-container''] [])
       (sample_slide 1 [''active''] ''Welcome'' #
        map (\<lambda>k. sample_slide k [] (''Topic '' @ decimal k)) [2..<11])"

definition sample_page :: node where
  "sample_page =
     Elem (sample_el ''body'' [] [] [])
       [sample_deck,
        Elem (sample_el ''div'' ''progressFill'' [] []) [],
        Elem (sample_el ''button'' ''prevBtn'' [] []) [TextNode ''Back''],
        Elem (sample_el ''span'' ''currentSlide'' [] []) [],
        Elem (sample_el ''span'' ''totalSlides'' [] []) [],
        Elem (sample_el ''button'' ''nextBtn'' [] []) [TextNode ''Forward'']]"

definition sample_doc :: node where
  "sample_doc =
     Elem (sample_el ''body'' [] [] [])
       [sample_deck,
        Elem ((sample_el ''div'' ''progressFill'' [] [])\<lparr>style_width := ''10%''\<rparr>) [],
        Elem ((sample_el ''button'' ''prevBtn'' [] [])\<lparr>disabled := True\<rparr>) [TextNode ''Start''],
        Elem (sample_el ''span'' ''currentSlide'' [] []) [TextNode ''1''],
        Elem (sample_el ''span'' ''totalSlides'' [] []) [TextNode ''10''],
        Elem (sample_el ''button'' ''nextBtn'' [] []) [TextNode (''Next '' @ rarrow)]]"

definition sample_world :: world where
  "sample_world =
     \<lparr>this = \<lparr>currentSlide = Fin 1, totalSlides = Fin 10,
              slides = map (\<lambda>i. [0, i]) [0..<10],
              prevBtn = Some [2], nextBtn = Some [5], currentSlideSpan = Some [3],
              totalSlidesSpan = Some [4], progressFill = Some [1]\<rparr>,
      doc = sample_doc,
      listeners =
        [\<lparr>on_target = Element [2], on_event = ''click'', callback = PrevBtnClick, is_passive = False\<rparr>,
         \<lparr>on_target = Element [5], on_event = ''click'', callback = NextBtnClick, is_passive = False\<rparr>,
         \<lparr>on_target = Document, on_event = ''keydown'', callback = KeyDown, is_passive = False\<rparr>,
         \<lparr>on_target = Element [0], on_event = ''touchstart'', callback = TouchStart, is_passive = True\<rparr>,
         \<lparr>on_target = Element [0], on_event = ''touchend'', callback = TouchEnd, is_passive = True\<rparr>],
      touch = \<lparr>startX = Fin 0, startY = Fin 0, endX = Fin 0, endY = Fin 0\<rparr>\<rparr>"

lemma sample_this [simp]:
  "currentSlide (this sample_world) = Fin 1" "totalSlides (this sample_world) = Fin 10"
  "prevBtn (this sample_world) = Some [2]" "nextBtn (this sample_world) = Some [5]"
  "currentSlideSpan (this sample_world) = Some [3]" "totalSlidesSpan (this sample_world) = Some [4]"
  "progressFill (this sample_world) = Some [1]"
  by (simp_all add: sample_world_def)

lemma sample_position_ok [simp]: "position_ok sample_world"
  by (simp add: position_ok_def)

section \<open>Positions after each operation\<close>

lemma totalSlides_goToSlide [simp, frame]:
  "totalSlides (this (goToSlide n w)) = totalSlides (this w)"
  by (simp add: this_goToSlide)

lemma totalSlides_nextSlide [simp, frame]:
  "totalSlides (this (nextSlide w)) = totalSlides (this w)"
  by (simp add: nextSlide_def)

lemma totalSlides_previousSlide [simp, frame]:
  "totalSlides (this (previousSlide w)) = totalSlides (this w)"
  by (simp add: previousSlide_def)

lemma totalSlides_handleKeyPress [simp, frame]:
  "totalSlides (this (fst (handleKeyPress k w))) = totalSlides (this w)"
  by (simp add: handleKeyPress_def)

lemma totalSlides_touchend [simp, frame]:
  "totalSlides (this (touchend x y w)) = totalSlides (this w)"
  by (simp add: touchend_def Let_def)

lemma totalSlides_run_callback [simp, frame]:
  "totalSlides (this (fst (run_callback cb ev w))) = totalSlides (this w)"
  by (cases "(cb, ev, w)" rule: run_callback.cases) (simp_all add: touchstart_def)

lemma totalSlides_deliver [simp, frame]:
  "totalSlides (this (fst (deliver ev l st))) = totalSlides (this (fst st))"
  using totalSlides_run_callback [of "callback l" ev "fst st"]
  by (cases "run_callback (callback l) ev (fst st)") (simp add: deliver_def)

lemma totalSlides_fold_deliver:
  "totalSlides (this (fst (fold (deliver ev) ls st))) = totalSlides (this (fst st))"
  by (induction ls arbitrary: st) simp_all

lemma totalSlides_dispatch [simp, frame]:
  "totalSlides (this (fst (dispatch t ev w))) = totalSlides (this w)"
  by (simp add: dispatch_def totalSlides_fold_deliver)

lemma position_goToSlide:
  assumes "position_ok w"
  shows "position (goToSlide (num x) w) = (if 1 \<le> x \<and> x \<le> deck_size w then x else position w)"
proof -
  from assms obtain n where "totalSlides (this w) = num n" by (auto elim: position_okE)
  then show ?thesis by (simp add: this_goToSlide)
qed

lemma position_goToSlide_1: "position_ok w \<Longrightarrow> position (goToSlide (Fin 1) w) = 1"
  using position_goToSlide [of w 1] by (simp add: position_ok_def)

lemma position_goToSlide_total:
  "position_ok w \<Longrightarrow> position (goToSlide (totalSlides (this w)) w) = deck_size w"
  by (auto elim!: position_okE simp: this_goToSlide)

lemma position_nextSlide:
  "position_ok w \<Longrightarrow> position (nextSlide w) = min (position w + 1) (deck_size w)"
  by (simp add: this_nextSlide)

lemma position_previousSlide:
  "position_ok w \<Longrightarrow> position (previousSlide w) = max (position w - 1) 1"
  by (simp add: this_previousSlide)

lemmas position_simps = position_goToSlide position_goToSlide_1 position_goToSlide_total
  position_nextSlide position_previousSlide

section \<open>Runs of events\<close>

text \<open>
  C3 (invariant). Whatever events are delivered, to whatever targets and in
  whatever order, and whatever listeners are registered, the position stays an
  integer between 1 and the number of slides.
\<close>

theorem position_stays_in_range:
  "position_ok w \<Longrightarrow> position_ok (run_events evs w)"
  unfolding run_events_def
  by (induction evs arbitrary: w) (auto simp: position_ok_dispatch)

theorem position_stays_in_range_witness:
  "position_ok sample_world \<and>
   position_ok (run_events [(Document, Key ''End''), (Element [5], Click),
                            (Element [0], TouchStartAt (Fin 100) (Fin 50)),
                            (Element [0], TouchEndAt (Fin 20) (Fin 55))] sample_world)"
  using position_stays_in_range [of sample_world] by simp

text \<open>
  C11 (functional). \<open>nextSlide\<close> moves one slide forward and stops at the last
  slide; \<open>previousSlide\<close> moves one slide back and stops at the first. Neither
  changes the number of slides.
\<close>

theorem next_previous_clamp:
  assumes "position_ok w"
  shows "position (nextSlide w) = min (position w + 1) (deck_size w) \<and>
         position (previousSlide w) = max (position w - 1) 1 \<and>
         deck_size (nextSlide w) = deck_size w \<and> deck_size (previousSlide w) = deck_size w"
  using assms by (simp add: position_simps)

theorem next_previous_clamp_witness:
  "position_ok sample_world \<and> position (nextSlide sample_world) = 2 \<and>
   position (previousSlide sample_world) = 1"
  using next_previous_clamp [of sample_world] by simp

text \<open>
  C12 (error). A target below 1 or above the number of slides is ignored:
  \<open>goToSlide\<close> returns the state it was given, document included.
\<close>

theorem goToSlide_ignores_out_of_range:
  assumes "safe_int (totalSlides (this w))" "x < 1 \<or> deck_size w < x"
  shows "goToSlide (num x) w = w"
proof -
  from assms(1) obtain n where "totalSlides (this w) = num n" by (auto elim: safe_intE)
  with assms(2) show ?thesis by (auto simp: goToSlide_def)
qed

theorem goToSlide_ignores_out_of_range_witness:
  "goToSlide (Fin 999) sample_world = sample_world \<and> goToSlide (Fin 0) sample_world = sample_world"
  using goToSlide_ignores_out_of_range [of sample_world 999]
    goToSlide_ignores_out_of_range [of sample_world 0] by simp

text \<open>
  C20 (functional). The keyboard handler: the three forward keys advance, the
  two backward keys retreat, \<open>Home\<close> and \<open>Escape\<close> go to the first slide,
  \<open>End\<close> to the last; every other key leaves the state alone. The default
  action of the event is suppressed for exactly these eight keys.
\<close>

theorem handleKeyPress_table:
  assumes "position_ok w"
  shows "position (fst (handleKeyPress k w)) =
           (if k \<in> {''ArrowRight'', ''Space'', ''PageDown''} then min (position w + 1) (deck_size w)
            else if k \<in> {''ArrowLeft'', ''PageUp''} then max (position w - 1) 1
            else if k \<in> {''Home'', ''Escape''} then 1
            else if k = ''End'' then deck_size w
            else position w) \<and>
         snd (handleKeyPress k w) =
           (k \<in> {''ArrowRight'', ''Space'', ''PageDown'', ''ArrowLeft'', ''PageUp'',
                  ''Home'', ''End'', ''Escape''}) \<and>
         (\<not> snd (handleKeyPress k w) \<longrightarrow> fst (handleKeyPress k w) = w)"
  using assms by (simp add: handleKeyPress_def position_simps)

theorem handleKeyPress_table_witness:
  "position (fst (handleKeyPress ''End'' sample_world)) = 10 \<and>
   snd (handleKeyPress ''End'' sample_world) \<and>
   fst (handleKeyPress ''Tab'' sample_world) = sample_world"
  using handleKeyPress_table [of sample_world "''End''"] handleKeyPress_table [of sample_world "''Tab''"]
  by simp

section \<open>Swipes\<close>

lemma this_touch_update [simp]: "this (w\<lparr>touch := t\<rparr>) = this w"
  by simp

lemma touchend_after_touchstart:
  assumes "\<bar>x1 - x0\<bar> \<le> 2 ^ 53" "\<bar>y1 - y0\<bar> \<le> 2 ^ 53"
  shows "touchend (num x1) (num y1) (touchstart (num x0) (num y0) w) =
     (let w1 = w\<lparr>touch := (touch w)\<lparr>startX := num x0, startY := num y0, endX := num x1, endY := num y1\<rparr>\<rparr>
      in if \<bar>y1 - y0\<bar> < \<bar>x1 - x0\<bar> \<and> 50 < \<bar>x1 - x0\<bar>
         then (if x0 < x1 then previousSlide w1 else nextSlide w1) else w1)"
proof -
  have "js_sub (num x1) (num x0) = num (x1 - x0)" "js_sub (num y1) (num y0) = num (y1 - y0)"
    using assms by (simp_all add: js_sub_num)
  moreover have "Math_abs (num d) = num \<bar>d\<bar>" for d by simp
  ultimately show ?thesis
    by (simp add: touchend_def touchstart_def Let_def del: Math_abs.simps of_int_diff of_int_abs)
qed

text \<open>
  C21 (functional). A touch that starts at \<open>(x0, y0)\<close> and ends at \<open>(x1, y1)\<close>
  navigates exactly when the horizontal distance exceeds both the vertical
  distance and 50 pixels: to the previous slide for a swipe to the right, to
  the next slide for a swipe to the left, each clamped at the ends of the deck.
\<close>

theorem swipe_decision:
  assumes "position_ok w" "\<bar>x1 - x0\<bar> \<le> 2 ^ 53" "\<bar>y1 - y0\<bar> \<le> 2 ^ 53"
  shows "position (touchend (num x1) (num y1) (touchstart (num x0) (num y0) w)) =
     (if \<bar>y1 - y0\<bar> < \<bar>x1 - x0\<bar> \<and> 50 < \<bar>x1 - x0\<bar>
      then (if x0 < x1 then max (position w - 1) 1 else min (position w + 1) (deck_size w))
      else position w)"
proof -
  let ?w1 = "w\<lparr>touch := (touch w)\<lparr>startX := num x0, startY := num y0, endX := num x1, endY := num y1\<rparr>\<rparr>"
  from assms(1) have "position_ok ?w1" by simp
  then have "position (previousSlide ?w1) = max (position w - 1) 1"
    "position (nextSlide ?w1) = min (position w + 1) (deck_size w)"
    by (simp_all add: position_simps)
  with assms(2,3) show ?thesis
    by (simp add: touchend_after_touchstart Let_def del: of_int_diff)
qed

theorem swipe_decision_witness:
  "position (touchend (Fin 20) (Fin 55) (touchstart (Fin 100) (Fin 50) sample_world)) = 2 \<and>
   position (touchend (Fin 95) (Fin 120) (touchstart (Fin 100) (Fin 50) sample_world)) = 1"
  using swipe_decision [of sample_world 20 100 55 50] swipe_decision [of sample_world 95 100 120 50]
  by simp

section \<open>Numbers that pass the bounds check\<close>

text \<open>
  C25 (safety). The bounds check of \<open>goToSlide\<close> lets \<open>NaN\<close> through: both
  comparisons are false, so \<open>NaN\<close> is stored as the current slide. From then
  on \<open>nextSlide\<close> and \<open>previousSlide\<close> do nothing, because their guards
  compare with \<open>NaN\<close> too.
\<close>

theorem goToSlide_NaN_is_stored:
  "currentSlide (this (goToSlide NaN w)) = NaN \<and>
   nextSlide (goToSlide NaN w) = goToSlide NaN w \<and>
   previousSlide (goToSlide NaN w) = goToSlide NaN w \<and>
   \<not> position_ok (goToSlide NaN w)"
  by (simp add: this_goToSlide nextSlide_def previousSlide_def position_ok_def)

text \<open>
  C26 (safety). A target that is in range but not an integer is accepted: after
  \<open>goToSlide(2.5)\<close> on a deck of ten the current slide is 2.5, and
  \<open>nextSlide\<close> leads to 3.5, never back to a slide number.
\<close>

theorem goToSlide_fraction_is_stored:
  assumes "totalSlides (this w) = Fin 10"
  shows "currentSlide (this (goToSlide (Fin (5 / 2)) w)) = Fin (5 / 2) \<and>
         currentSlide (this (nextSlide (goToSlide (Fin (5 / 2)) w))) = Fin (7 / 2) \<and>
         \<not> position_ok (goToSlide (Fin (5 / 2)) w)"
proof -
  have "fl (7 / 2) = 7 / 2" by (rule fl_exact [of _ 7881299347898368]) code_simp
  then have "js_add (Fin (5 / 2)) (Fin 1) = Fin (7 / 2)" by (simp add: to_double_def)
  with assms show ?thesis
    by (simp add: this_goToSlide nextSlide_def position_ok_def)
qed

theorem goToSlide_fraction_is_stored_witness:
  "currentSlide (this (goToSlide (Fin (5 / 2)) sample_world)) = Fin (5 / 2) \<and>
   \<not> position_ok (goToSlide (Fin (5 / 2)) sample_world)"
  using goToSlide_fraction_is_stored [of sample_world] by simp

end
