(* ===== verification/Refinement.thy ===== *)
theory Refinement
  imports Presentation Controller
begin

text \<open>
  The link between the object of \<open>src/app.js\<close> and the bounded counter of
  the specification: the abstraction that forgets everything but the position
  and the number of slides, and the lemmas that each navigation method is the
  operation of the same name on the counter.
\<close>

definition abs_ctl :: "world \<Rightarrow> controller" where
  "abs_ctl w = \<lparr>pos = position w, count = deck_size w\<rparr>"

lemma abs_ctl_simps [simp]: "pos (abs_ctl w) = position w" "count (abs_ctl w) = deck_size w"
  by (simp_all add: abs_ctl_def)

lemma ctl_ok_abs: "position_ok w \<Longrightarrow> ctl_ok (abs_ctl w)"
  by (simp add: position_ok_def ctl_ok_def abs_ctl_def)

lemma abs_goToSlide:
  "position_ok w \<Longrightarrow> abs_ctl (goToSlide (num n) w) = ctl_goTo n (abs_ctl w)"
  by (simp add: abs_ctl_def ctl_goTo_def position_goToSlide)

lemma abs_nextSlide: "position_ok w \<Longrightarrow> abs_ctl (nextSlide w) = ctl_next (abs_ctl w)"
  by (auto simp: abs_ctl_def ctl_next_def ctl_goTo_def position_simps position_ok_def)

lemma abs_previousSlide: "position_ok w \<Longrightarrow> abs_ctl (previousSlide w) = ctl_previous (abs_ctl w)"
  by (auto simp: abs_ctl_def ctl_previous_def ctl_goTo_def position_simps position_ok_def)

lemma abs_reset: "position_ok w \<Longrightarrow> abs_ctl (reset w) = ctl_reset (abs_ctl w)"
  using abs_goToSlide [of w 1] by (simp add: reset_def ctl_reset_def)

lemma abs_ctl_touch [simp]: "abs_ctl (w\<lparr>touch := t\<rparr>) = abs_ctl w"
  by (simp add: abs_ctl_def)

end
