(* ===== verification/Display.thy ===== *)
theory Display
  imports Refinement
begin

text \<open>
  What the page shows after a navigation: the counter, the two buttons, the
  progress bar, the live region and the active slide, read from the document
  that \<open>goToSlide\<close> returns. The theorems hold for every page whose controls
  are laid out beside each other, none inside another; the sample page is
  one of them.
\<close>

section \<open>The layout the program expects\<close>

definition controls :: "presentation \<Rightarrow> path list" where
  "controls t =
     List.map_filter id [prevBtn t, nextBtn t, currentSlideSpan t, totalSlidesSpan t, progressFill t]"

text \<open>
  The body is an element, every control is an element below it, no control
  contains another, and no control lies inside the live region or contains
  it (the text of the live region and of three of the controls is replaced,
  with everything they contain).
\<close>

definition laid_out :: "path list \<Rightarrow> node \<Rightarrow> bool" where
  "laid_out cs d \<longleftrightarrow>
     elem_of d \<noteq> None \<and>
     (\<forall>p \<in> set cs. p \<noteq> [] \<and> elem_at d p \<noteq> None) \<and>
     distinct cs \<and> (\<forall>p \<in> set cs. \<forall>q \<in> set cs. p \<noteq> q \<longrightarrow> p \<parallel> q) \<and>
     (\<forall>a \<in> set (querySelectorAll (ById ''slide-announcement'') d). \<forall>p \<in> set cs. a \<parallel> p)"

definition layout_ok :: "world \<Rightarrow> bool" where
  "layout_ok w \<longleftrightarrow> laid_out (controls (this w)) (doc w)"

lemma in_controls:
  "prevBtn t = Some p \<Longrightarrow> p \<in> set (controls t)"
  "nextBtn t = Some p \<Longrightarrow> p \<in> set (controls t)"
  "currentSlideSpan t = Some p \<Longrightarrow> p \<in> set (controls t)"
  "totalSlidesSpan t = Some p \<Longrightarrow> p \<in> set (controls t)"
  "progressFill t = Some p \<Longrightarrow> p \<in> set (controls t)"
  by (auto simp: controls_def List.map_filter_simps split: option.splits)

lemma in_querySelectorAll [simp]:
  "p \<in> set (querySelectorAll s d) \<longleftrightarrow> elem_at d p \<noteq> None \<and> matches d s p"
  by (simp add: querySelectorAll_def)

lemma laid_out_control:
  assumes "laid_out cs d" "p \<in> set cs"
  shows "p \<noteq> []" "elem_at d p \<noteq> None"
  using assms by (simp_all add: laid_out_def)

lemma laid_out_root: "laid_out cs d \<Longrightarrow> elem_of d \<noteq> None"
  by (simp add: laid_out_def)

lemma laid_out_live:
  assumes "laid_out cs d" "p \<in> set cs" "elem_at d a = Some e" "elem_id e = ''slide-announcement''"
  shows "a \<parallel> p" "p \<parallel> a"
proof -
  from assms(3,4) have "a \<in> set (querySelectorAll (ById ''slide-announcement'') d)"
    by simp
  with assms(1,2) show "a \<parallel> p" by (simp add: laid_out_def del: in_querySelectorAll)
  then show "p \<parallel> a" by (rule parallel_commute [THEN iffD1])
qed

lemma laid_out_parallel:
  assumes "laid_out cs d" "p \<in> set cs" "q \<in> set cs" "p \<noteq> q"
  shows "p \<parallel> q"
  using assms by (simp add: laid_out_def)

text \<open>Two controls held in different fields of the object are different elements.\<close>

lemma distinct_controls:
  assumes "distinct (controls t)"
  shows "prevBtn t = Some p \<Longrightarrow> nextBtn t \<noteq> Some p"
    "prevBtn t = Some p \<Longrightarrow> currentSlideSpan t \<noteq> Some p"
    "prevBtn t = Some p \<Longrightarrow> progressFill t \<noteq> Some p"
    "nextBtn t = Some p \<Longrightarrow> currentSlideSpan t \<noteq> Some p"
    "nextBtn t = Some p \<Longrightarrow> progressFill t \<noteq> Some p"
    "currentSlideSpan t = Some p \<Longrightarrow> progressFill t \<noteq> Some p"
  using assms by (auto simp: controls_def List.map_filter_simps split: option.splits)

lemma distinct_total:
  assumes "distinct (controls t)" "totalSlidesSpan t = Some p"
  shows "prevBtn t \<noteq> Some p" "nextBtn t \<noteq> Some p" "currentSlideSpan t \<noteq> Some p"
    "progressFill t \<noteq> Some p"
  using assms by (auto simp: controls_def List.map_filter_simps split: option.splits)

lemma layout_ok_distinct: "layout_ok w \<Longrightarrow> distinct (controls (this w))"
  by (simp add: layout_ok_def laid_out_def)

section \<open>Updates that keep the identifiers\<close>

text \<open>
  No update of the program gives an element a new \<open>id\<close> or new attributes:
  an element found in the document after an update was there before, with the
  same \<open>id\<close> and the same attributes. The relation is stated for any
  projection \<open>f\<close> of an element that the updates leave alone.
\<close>

definition keeps :: "(element \<Rightarrow> 'a) \<Rightarrow> node \<Rightarrow> node \<Rightarrow> bool" where
  "keeps f d d' \<longleftrightarrow>
     (\<forall>a e. elem_at d' a = Some e \<longrightarrow> (\<exists>e'. elem_at d a = Some e' \<and> f e' = f e))"

abbreviation keeps_ids :: "node \<Rightarrow> node \<Rightarrow> bool" where
  "keeps_ids \<equiv> keeps elem_id"

definition untouched :: "(element \<Rightarrow> 'a) \<Rightarrow> bool" where
  "untouched f \<longleftrightarrow> (\<forall>e b. f (e\<lparr>disabled := b\<rparr>) = f e) \<and> (\<forall>e s. f (e\<lparr>style_width := s\<rparr>) = f e)"

lemma untouched_fields [simp, intro]: "untouched elem_id" "untouched attrs" "untouched classList"
  by (simp_all add: untouched_def)

lemma untouchedD [simp]:
  assumes "untouched f"
  shows "f (e\<lparr>disabled := b\<rparr>) = f e" "f (set_width_percent n e) = f e"
  using assms by (cases n; simp add: untouched_def)+

lemma keepsD: "keeps f d d' \<Longrightarrow> elem_at d' a = Some e \<Longrightarrow> \<exists>e'. elem_at d a = Some e' \<and> f e' = f e"
  by (simp add: keeps_def)

lemma keeps_refl [simp, intro]: "keeps f d d"
  by (simp add: keeps_def)

lemma keeps_trans [trans]: "keeps f d d' \<Longrightarrow> keeps f d' d'' \<Longrightarrow> keeps f d d''"
  unfolding keeps_def by (metis (no_types, opaque_lifting))

lemma keeps_upd_elem [intro]:
  "(\<And>e. f (g e) = f e) \<Longrightarrow> keeps f d (upd_elem p g d)"
  by (auto simp: keeps_def elem_at_upd_elem split: if_splits)

lemma keeps_set_textContent [intro]: "keeps f d (set_textContent p s d)"
  by (auto simp: keeps_def elem_at_set_textContent split: if_splits)

lemma elem_id_updates [simp]:
  "elem_id (classList_add c e) = elem_id e" "elem_id (classList_remove cs e) = elem_id e"
  "elem_id (set_width_percent n e) = elem_id e"
  by (cases n; simp add: classList_add_def classList_remove_def)+

lemma getElementById_Some:
  "getElementById i d = Some a \<Longrightarrow> \<exists>e. elem_at d a = Some e \<and> elem_id e = i"
  by (auto simp: getElementById_def querySelector_def dest!: find_Some_in_set split: option.splits)

lemma keeps_set_button [intro]: "untouched f \<Longrightarrow> keeps f d (set_button p off a b d)"
  unfolding set_button_def
  by (rule keeps_trans [OF keeps_upd_elem keeps_set_textContent]) simp

lemma keeps_updateSlideDisplay [intro]: "keeps f (doc w) (doc (updateSlideDisplay w))"
  by (auto simp: updateSlideDisplay_def split: option.splits)

lemma keeps_updateProgressBar [intro]: "untouched f \<Longrightarrow> keeps f (doc w) (doc (updateProgressBar w))"
  by (auto simp: updateProgressBar_def Let_def split: option.splits)

lemma keeps_updateNavButtons [intro]: "untouched f \<Longrightarrow> keeps f (doc w) (doc (updateNavButtons w))"
  by (auto simp: updateNavButtons_def Let_def split: option.splits intro: keeps_trans)

text \<open>An update that keeps the controls in place keeps the layout.\<close>

lemma laid_out_step:
  assumes "laid_out cs d" "keeps_ids d d'"
    "\<And>p. p \<in> set cs \<Longrightarrow> elem_at d' p \<noteq> None" "elem_of d' \<noteq> None"
  shows "laid_out cs d'"
proof -
  have "a \<parallel> p" if "elem_at d' a = Some e" "elem_id e = ''slide-announcement''" "p \<in> set cs" for a e p
  proof -
    from that(1) assms(2) obtain e' where "elem_at d a = Some e'" "elem_id e' = elem_id e"
      by (auto simp: keeps_def)
    with assms(1) that show ?thesis by (auto intro: laid_out_live)
  qed
  with assms show ?thesis
    by (auto simp: laid_out_def split: option.splits)
qed

section \<open>What each update of the document shows at a control\<close>

lemma upd_elem_shows:
  "elem_at (upd_elem p g d) q = (if q = p then map_option g (elem_at d q) else elem_at d q)"
  "textContent (upd_elem p g d) q = textContent d q"
  by (simp_all add: elem_at_upd_elem)

lemma set_textContent_shows:
  assumes "laid_out cs d" "p \<in> set cs" "q \<in> set cs"
  shows "elem_at (set_textContent p s d) q = elem_at d q"
    and "textContent (set_textContent p s d) q = (if q = p then Some s else textContent d q)"
proof -
  have "elem_at (set_textContent p s d) q = elem_at d q \<and>
    textContent (set_textContent p s d) q = (if q = p then Some s else textContent d q)"
  proof (cases "q = p")
    case True
    with assms show ?thesis by (simp add: laid_out_control)
  next
    case False
    with assms have "p \<parallel> q" by (intro laid_out_parallel [of cs d]) auto
    with False show ?thesis
      by (simp add: elem_at_set_textContent_other textContent_set_textContent_other)
  qed
  then show "elem_at (set_textContent p s d) q = elem_at d q"
    and "textContent (set_textContent p s d) q = (if q = p then Some s else textContent d q)"
    by simp_all
qed

lemma laid_out_upd_elem [wf_keep]:
  assumes "laid_out cs d" "\<And>e. elem_id (g e) = elem_id e"
  shows "laid_out cs (upd_elem p g d)"
proof (rule laid_out_step [OF assms(1)])
  show "keeps_ids d (upd_elem p g d)" using assms(2) by (rule keeps_upd_elem)
  show "elem_at (upd_elem p g d) q \<noteq> None" if "q \<in> set cs" for q
    using laid_out_control(2) [OF assms(1) that] by (auto simp: elem_at_upd_elem)
  show "elem_of (upd_elem p g d) \<noteq> None"
    using laid_out_root [OF assms(1)] by (simp add: elem_at_upd_elem flip: elem_at_Nil)
qed

lemma laid_out_set_textContent_beside:
  assumes "laid_out cs d" "\<And>q. q \<in> set cs \<Longrightarrow> q = p \<or> p \<parallel> q"
  shows "laid_out cs (set_textContent p s d)"
proof (rule laid_out_step [OF assms(1)])
  show "keeps_ids d (set_textContent p s d)" by (rule keeps_set_textContent)
  show "elem_at (set_textContent p s d) q \<noteq> None" if "q \<in> set cs" for q
    using laid_out_control(2) [OF assms(1) that] assms(2) [OF that]
    by (auto simp: elem_at_set_textContent_other)
  show "elem_of (set_textContent p s d) \<noteq> None"
    using laid_out_root [OF assms(1)] by (simp add: elem_at_set_textContent flip: elem_at_Nil)
qed

lemma laid_out_set_textContent [wf_keep]:
  assumes "laid_out cs d" "p \<in> set cs"
  shows "laid_out cs (set_textContent p s d)"
  using assms by (intro laid_out_set_textContent_beside) (auto intro: laid_out_parallel)

lemma laid_out_appendChild [wf_keep]:
  assumes "laid_out cs d"
  shows "laid_out cs (appendChild c d)"
proof -
  have live: "a \<parallel> p"
    if "elem_at (appendChild c d) a = Some e" "elem_id e = ''slide-announcement''" "p \<in> set cs"
    for a e p
  proof (cases "\<exists>r. a = child_count d # r")
    case True
    with laid_out_control [OF assms that(3)] show ?thesis
      by (auto simp: parallel_fresh_child)
  next
    case False
    with that(1) have "elem_at d a = Some e"
      by (cases a) (auto simp: elem_at_appendChild split: if_splits)
    with assms that show ?thesis by (auto intro: laid_out_live)
  qed
  have "elem_of (appendChild c d) \<noteq> None"
    using laid_out_root [OF assms] by (cases d) simp_all
  with assms live show ?thesis
    by (auto simp: laid_out_def elem_at_appendChild_old)
qed

lemma laid_out_fold_upd_elem [wf_keep]:
  assumes "laid_out cs d" "\<And>e. elem_id (g e) = elem_id e"
  shows "laid_out cs (fold (\<lambda>p. upd_elem p g) ps d)"
  using assms by (induction ps arbitrary: d) (simp_all add: laid_out_upd_elem)

lemma set_button_shows:
  assumes "laid_out cs d" "p \<in> set cs" "q \<in> set cs"
  shows "elem_at (set_button p off a b d) q =
      (if q = p then map_option (\<lambda>e. e\<lparr>disabled := off\<rparr>) (elem_at d q) else elem_at d q)"
    and "textContent (set_button p off a b d) q =
      (if q = p then Some (if off then a else b) else textContent d q)"
proof -
  have "laid_out cs (upd_elem p (\<lambda>e. e\<lparr>disabled := off\<rparr>) d)"
    using assms(1) by (rule laid_out_upd_elem) simp
  from set_textContent_shows [OF this assms(2,3)]
  show "elem_at (set_button p off a b d) q =
      (if q = p then map_option (\<lambda>e. e\<lparr>disabled := off\<rparr>) (elem_at d q) else elem_at d q)"
    and "textContent (set_button p off a b d) q =
      (if q = p then Some (if off then a else b) else textContent d q)"
    by (simp_all add: set_button_def upd_elem_shows)
qed

lemma laid_out_set_button [wf_keep]:
  assumes "laid_out cs d" "p \<in> set cs"
  shows "laid_out cs (set_button p off a b d)"
  unfolding set_button_def using assms by (intro laid_out_set_textContent laid_out_upd_elem) simp_all

text \<open>
  The live region is the first element with its \<open>id\<close>, or a new last child
  of the body. Either way it is beside every control.
\<close>

definition live_region :: "node \<Rightarrow> node \<times> path" where
  "live_region d =
     (case getElementById ''slide-announcement'' d of
        Some a \<Rightarrow> (d, a)
      | None \<Rightarrow> (appendChild announcement_div d, [child_count d]))"

lemma elem_of_announcement_div:
  "elem_of announcement_div \<noteq> None" "elem_at announcement_div (i # r) = None"
  by (simp_all add: announcement_div_def createElement_def elem_at_def)

lemma live_region_shows:
  assumes "laid_out cs d" "q \<in> set cs"
  shows "elem_at (fst (live_region d)) q = elem_at d q"
    and "textContent (fst (live_region d)) q = textContent d q"
    and "snd (live_region d) \<parallel> q"
    and "elem_at (fst (live_region d)) (snd (live_region d)) \<noteq> None"
proof -
  note q = laid_out_control [OF assms]
  have "elem_at (fst (live_region d)) q = elem_at d q \<and>
    textContent (fst (live_region d)) q = textContent d q \<and> snd (live_region d) \<parallel> q \<and>
    elem_at (fst (live_region d)) (snd (live_region d)) \<noteq> None"
  proof (cases "getElementById ''slide-announcement'' d")
    case None
    with q laid_out_root [OF assms(1)] show ?thesis
      by (simp add: live_region_def elem_at_appendChild_old textContent_appendChild
          parallel_fresh_child elem_at_appendChild_new elem_of_announcement_div)
  next
    case (Some a)
    then obtain e where "elem_at d a = Some e" "elem_id e = ''slide-announcement''"
      by (auto dest: getElementById_Some)
    with assms Some show ?thesis by (simp add: live_region_def laid_out_live)
  qed
  then show "elem_at (fst (live_region d)) q = elem_at d q"
    and "textContent (fst (live_region d)) q = textContent d q"
    and "snd (live_region d) \<parallel> q"
    and "elem_at (fst (live_region d)) (snd (live_region d)) \<noteq> None" by simp_all
qed

lemma announceSlideChange_live:
  "doc (announceSlideChange w) =
     set_textContent (snd (live_region (doc w)))
       (slideTitle (Number_toString (currentSlide (this w))) (fst (live_region (doc w))) @
        ''. Slide '' @ Number_toString (currentSlide (this w)) @ '' of '' @
        Number_toString (totalSlides (this w)))
       (fst (live_region (doc w)))"
  by (simp add: announceSlideChange_def live_region_def Let_def split: option.splits)

lemma laid_out_live_region [wf_keep]:
  "laid_out cs d \<Longrightarrow> laid_out cs (fst (live_region d))"
  by (simp add: live_region_def laid_out_appendChild split: option.splits)

section \<open>What each method shows at a control\<close>

lemma updateSlideDisplay_shows:
  assumes "layout_ok w" "q \<in> set (controls (this w))"
  shows "elem_at (doc (updateSlideDisplay w)) q = elem_at (doc w) q"
    and "textContent (doc (updateSlideDisplay w)) q =
      (if currentSlideSpan (this w) = Some q then Some (Number_toString (currentSlide (this w)))
       else textContent (doc w) q)"
  using assms
  by (auto simp: updateSlideDisplay_def layout_ok_def in_controls
      set_textContent_shows [where cs = "controls (this w)"] split: option.splits)

lemma updateProgressBar_shows:
  "elem_at (doc (updateProgressBar w)) q =
      (if progressFill (this w) = Some q
       then map_option (set_width_percent
              (js_mul (js_div (currentSlide (this w)) (totalSlides (this w))) (Fin 100)))
            (elem_at (doc w) q)
       else elem_at (doc w) q)"
  "textContent (doc (updateProgressBar w)) q = textContent (doc w) q"
  by (auto simp: updateProgressBar_def Let_def elem_at_upd_elem split: option.splits)

lemma updateNavButtons_shows:
  assumes "layout_ok w" "q \<in> set (controls (this w))"
  shows "elem_at (doc (updateNavButtons w)) q =
      (if prevBtn (this w) = Some q
       then map_option (\<lambda>e. e\<lparr>disabled := js_strict_eq (currentSlide (this w)) (Fin 1)\<rparr>)
              (elem_at (doc w) q)
       else if nextBtn (this w) = Some q
       then map_option (\<lambda>e. e\<lparr>disabled :=
              js_strict_eq (currentSlide (this w)) (totalSlides (this w))\<rparr>) (elem_at (doc w) q)
       else elem_at (doc w) q)"
    and "textContent (doc (updateNavButtons w)) q =
      (if prevBtn (this w) = Some q
       then Some (if js_strict_eq (currentSlide (this w)) (Fin 1) then ''Start''
                  else larrow @ '' Previous'')
       else if nextBtn (this w) = Some q
       then Some (if js_strict_eq (currentSlide (this w)) (totalSlides (this w)) then ''End''
                  else ''Next '' @ rarrow)
       else textContent (doc w) q)"
  using assms distinct_controls(1) [OF layout_ok_distinct [OF assms(1)]]
  by (auto simp: updateNavButtons_def layout_ok_def Let_def laid_out_set_button in_controls
      set_button_shows [where cs = "controls (this w)"] split: option.splits)

lemma announceSlideChange_shows:
  assumes "layout_ok w" "q \<in> set (controls (this w))"
  shows "elem_at (doc (announceSlideChange w)) q = elem_at (doc w) q"
    and "textContent (doc (announceSlideChange w)) q = textContent (doc w) q"
  using assms live_region_shows [of "controls (this w)" "doc w" q]
  by (simp_all add: announceSlideChange_live layout_ok_def elem_at_set_textContent_other
      textContent_set_textContent_other)

lemma layout_ok_updateSlideDisplay [wf_keep]: "layout_ok w \<Longrightarrow> layout_ok (updateSlideDisplay w)"
  by (auto simp: layout_ok_def updateSlideDisplay_def laid_out_set_textContent in_controls
      split: option.splits)

lemma layout_ok_updateProgressBar [wf_keep]: "layout_ok w \<Longrightarrow> layout_ok (updateProgressBar w)"
  by (auto simp: layout_ok_def updateProgressBar_def Let_def laid_out_upd_elem split: option.splits)

lemma layout_ok_updateNavButtons [wf_keep]: "layout_ok w \<Longrightarrow> layout_ok (updateNavButtons w)"
  by (auto simp: layout_ok_def updateNavButtons_def Let_def laid_out_set_button in_controls
      split: option.splits)

lemma layout_ok_announceSlideChange [wf_keep]:
  assumes "layout_ok w"
  shows "layout_ok (announceSlideChange w)"
  unfolding layout_ok_def announceSlideChange_live announceSlideChange_frame
  using assms live_region_shows(3) [of "controls (this w)" "doc w"]
  by (intro laid_out_set_textContent_beside laid_out_live_region) (simp_all add: layout_ok_def)

section \<open>The two halves of a navigation\<close>

text \<open>
  \<open>goToSlide\<close> first moves the mark of the active slide and stores the new
  position, then refreshes the display. The two halves are named here so
  that each can be described on its own.
\<close>

definition mark_active :: "jsnum \<Rightarrow> world \<Rightarrow> world" where
  "mark_active slideNumber w =
     (let w1 = w\<lparr>doc := fold (\<lambda>p. upd_elem p (classList_remove [''active'', ''prev'']))
                           (slides (this w)) (doc w)\<rparr>;
          w2 = w1\<lparr>this := (this w1)\<lparr>currentSlide := slideNumber\<rparr>\<rparr>
      in case querySelector
                (ByAttr ''data-slide'' (Number_toString (currentSlide (this w2)))) (doc w2) of
           Some p \<Rightarrow> w2\<lparr>doc := upd_elem p (classList_add ''active'') (doc w2)\<rparr>
         | None \<Rightarrow> w2)"

definition update_display :: "world \<Rightarrow> world" where
  "update_display w = updateNavButtons (updateProgressBar (updateSlideDisplay w))"

definition refresh_display :: "world \<Rightarrow> world" where
  "refresh_display w = announceSlideChange (update_display w)"

lemma goToSlide_halves:
  "goToSlide n w =
     (if js_lt n (Fin 1) \<or> js_gt n (totalSlides (this w)) then w
      else refresh_display (mark_active n w))"
  by (simp add: goToSlide_def mark_active_def refresh_display_def update_display_def Let_def)

lemma this_mark_active [simp]: "this (mark_active n w) = (this w)\<lparr>currentSlide := n\<rparr>"
  by (simp add: mark_active_def Let_def split: option.splits)

lemma this_update_display [simp]: "this (update_display w) = this w"
  by (simp add: update_display_def)

lemma this_refresh_display [simp]: "this (refresh_display w) = this w"
  by (simp add: refresh_display_def)

lemma controls_currentSlide [simp]: "controls (t\<lparr>currentSlide := n\<rparr>) = controls t"
  by (simp add: controls_def)

text \<open>An element without its classes: what the first half cannot change.\<close>

definition unclassed :: "element \<Rightarrow> element" where
  "unclassed e = e\<lparr>classList := []\<rparr>"

lemma unclassed_fields [simp]:
  "disabled (unclassed e) = disabled e" "style_width (unclassed e) = style_width e"
  "elem_id (unclassed e) = elem_id e" "attrs (unclassed e) = attrs e"
  by (simp_all add: unclassed_def)

lemma unclassed_updates [simp]:
  "unclassed (classList_add c e) = unclassed e" "unclassed (classList_remove cs e) = unclassed e"
  by (simp_all add: unclassed_def classList_add_def classList_remove_def)

lemma unclassed_upd_elem:
  "(\<And>e. unclassed (g e) = unclassed e) \<Longrightarrow>
     map_option unclassed (elem_at (upd_elem p g d) q) = map_option unclassed (elem_at d q)"
  by (simp add: elem_at_upd_elem option.map_comp comp_def)

lemma unclassed_fold_upd_elem:
  "(\<And>e. unclassed (g e) = unclassed e) \<Longrightarrow>
     map_option unclassed (elem_at (fold (\<lambda>p. upd_elem p g) ps d) q) =
     map_option unclassed (elem_at d q)"
  by (induction ps arbitrary: d) (simp_all add: unclassed_upd_elem)

lemma textContent_fold_upd_elem [simp]:
  "textContent (fold (\<lambda>p. upd_elem p g) ps d) q = textContent d q"
  by (induction ps arbitrary: d) simp_all

lemma mark_active_shows:
  "map_option unclassed (elem_at (doc (mark_active n w)) q) = map_option unclassed (elem_at (doc w) q)"
  "textContent (doc (mark_active n w)) q = textContent (doc w) q"
  by (simp_all add: mark_active_def Let_def unclassed_upd_elem unclassed_fold_upd_elem
      split: option.splits)

lemma layout_ok_mark_active [wf_keep]: "layout_ok w \<Longrightarrow> layout_ok (mark_active n w)"
  by (simp add: layout_ok_def mark_active_def Let_def laid_out_upd_elem laid_out_fold_upd_elem
      split: option.splits)

lemma keeps_update_display [intro]: "untouched f \<Longrightarrow> keeps f (doc w) (doc (update_display w))"
  unfolding update_display_def
  by (blast intro: keeps_trans keeps_updateSlideDisplay keeps_updateProgressBar
      keeps_updateNavButtons)

lemma layout_ok_update_display [wf_keep]: "layout_ok w \<Longrightarrow> layout_ok (update_display w)"
  by (simp add: update_display_def wf_keep)

lemma layout_ok_refresh_display [wf_keep]: "layout_ok w \<Longrightarrow> layout_ok (refresh_display w)"
  by (simp add: refresh_display_def wf_keep)

lemma layout_ok_goToSlide [wf_keep]: "layout_ok w \<Longrightarrow> layout_ok (goToSlide n w)"
  by (simp add: goToSlide_halves wf_keep)

text \<open>What the three updates show at a control, from the position alone.\<close>

lemma update_display_shows:
  assumes "layout_ok w" "q \<in> set (controls (this w))"
  shows "elem_at (doc (update_display w)) q =
      map_option
        ((\<lambda>e. if prevBtn (this w) = Some q
              then e\<lparr>disabled := js_strict_eq (currentSlide (this w)) (Fin 1)\<rparr>
              else if nextBtn (this w) = Some q
              then e\<lparr>disabled := js_strict_eq (currentSlide (this w)) (totalSlides (this w))\<rparr>
              else e) \<circ>
         (\<lambda>e. if progressFill (this w) = Some q
              then set_width_percent
                     (js_mul (js_div (currentSlide (this w)) (totalSlides (this w))) (Fin 100)) e
              else e))
        (elem_at (doc w) q)"
    and "textContent (doc (update_display w)) q =
      (if prevBtn (this w) = Some q
       then Some (if js_strict_eq (currentSlide (this w)) (Fin 1) then ''Start''
                  else larrow @ '' Previous'')
       else if nextBtn (this w) = Some q
       then Some (if js_strict_eq (currentSlide (this w)) (totalSlides (this w)) then ''End''
                  else ''Next '' @ rarrow)
       else if currentSlideSpan (this w) = Some q
       then Some (Number_toString (currentSlide (this w)))
       else textContent (doc w) q)"
proof -
  let ?w1 = "updateSlideDisplay w"
  let ?w2 = "updateProgressBar ?w1"
  have ok: "layout_ok ?w1" "layout_ok ?w2"
    using assms(1) by (simp_all add: wf_keep)
  have q: "q \<in> set (controls (this ?w1))" "q \<in> set (controls (this ?w2))"
    using assms(2) by simp_all
  show "elem_at (doc (update_display w)) q =
      map_option
        ((\<lambda>e. if prevBtn (this w) = Some q
              then e\<lparr>disabled := js_strict_eq (currentSlide (this w)) (Fin 1)\<rparr>
              else if nextBtn (this w) = Some q
              then e\<lparr>disabled := js_strict_eq (currentSlide (this w)) (totalSlides (this w))\<rparr>
              else e) \<circ>
         (\<lambda>e. if progressFill (this w) = Some q
              then set_width_percent
                     (js_mul (js_div (currentSlide (this w)) (totalSlides (this w))) (Fin 100)) e
              else e))
        (elem_at (doc w) q)"
    unfolding update_display_def updateNavButtons_shows(1) [OF ok(2) q(2)]
      updateProgressBar_shows(1) updateSlideDisplay_shows(1) [OF assms]
    by (cases "elem_at (doc w) q") simp_all
  show "textContent (doc (update_display w)) q =
      (if prevBtn (this w) = Some q
       then Some (if js_strict_eq (currentSlide (this w)) (Fin 1) then ''Start''
                  else larrow @ '' Previous'')
       else if nextBtn (this w) = Some q
       then Some (if js_strict_eq (currentSlide (this w)) (totalSlides (this w)) then ''End''
                  else ''Next '' @ rarrow)
       else if currentSlideSpan (this w) = Some q
       then Some (Number_toString (currentSlide (this w)))
       else textContent (doc w) q)"
    unfolding update_display_def updateNavButtons_shows(2) [OF ok(2) q(2)]
      updateProgressBar_shows(2) updateSlideDisplay_shows(2) [OF assms]
    by simp
qed

section \<open>The display follows the position\<close>

text \<open>What a button shows: whether it is disabled and its label.\<close>

definition view_at :: "node \<Rightarrow> path \<Rightarrow> control_view option" where
  "view_at d p =
     (case (elem_at d p, textContent d p) of
        (Some e, Some s) \<Rightarrow> Some \<lparr>is_disabled = disabled e, label = s\<rparr>
      | _ \<Rightarrow> None)"

definition width_at :: "node \<Rightarrow> path \<Rightarrow> string option" where
  "width_at d p = map_option style_width (elem_at d p)"

text \<open>
  The display is in step with the object when each control that exists shows
  what the specification derives from the position: the two buttons their row
  of the table, the counter the position, the bar the percentage.
\<close>

definition display_synced :: "world \<Rightarrow> bool" where
  "display_synced w \<longleftrightarrow>
     (let t = this w; d = doc w; c = abs_ctl w in
        (case prevBtn t of Some p \<Rightarrow> view_at d p = Some (prev_control c) | None \<Rightarrow> True) \<and>
        (case nextBtn t of Some p \<Rightarrow> view_at d p = Some (next_control c) | None \<Rightarrow> True) \<and>
        (case currentSlideSpan t of
           Some p \<Rightarrow> textContent d p = Some (Number_toString (currentSlide t))
         | None \<Rightarrow> True) \<and>
        (case progressFill t of
           Some p \<Rightarrow> width_at d p = Some (Number_toString (Fin (percent (pos c) (count c))) @ ''%'')
         | None \<Rightarrow> True))"

lemma labels:
  "prev_label = larrow @ '' Previous''" "next_label = ''Next '' @ rarrow"
  by (simp_all add: prev_label_def next_label_def larrow_def rarrow_def)

lemma style_width_set_width_percent:
  "0 \<le> q \<Longrightarrow> style_width (set_width_percent (Fin q) e) = Number_toString (Fin q) @ ''%''"
  by simp

lemma display_synced_update_display:
  assumes "layout_ok w" "position_ok w"
  shows "display_synced (update_display w)"
proof -
  from assms(2) obtain k n where kn: "currentSlide (this w) = num k" "totalSlides (this w) = num n"
    "1 \<le> k" "k \<le> n" "n \<le> 2 ^ 53" by (rule position_okE)
  note d = distinct_controls [OF layout_ok_distinct [OF assms(1)]]
  note sh = update_display_shows [OF assms(1)]
  have pc: "js_mul (js_div (currentSlide (this w)) (totalSlides (this w))) (Fin 100) =
      Fin (percent k n)" "0 \<le> percent k n"
    unfolding kn by (rule progress_percent percent_nonneg; use kn in simp)+
  have ex: "\<exists>e. elem_at (doc w) q = Some e" if "q \<in> set (controls (this w))" for q
    using assms(1) that by (auto simp: layout_ok_def dest: laid_out_control(2))
  have "view_at (doc (update_display w)) p = Some (prev_control (abs_ctl w))"
    if "prevBtn (this w) = Some p" for p
    using that sh [of p] ex [of p] d(3) [OF that] kn
    by (auto simp: view_at_def in_controls prev_control_def labels)
  moreover have "view_at (doc (update_display w)) p = Some (next_control (abs_ctl w))"
    if "nextBtn (this w) = Some p" for p
    using that sh [of p] ex [of p] d(1) [of p] d(5) [OF that] kn
    by (auto simp: view_at_def in_controls next_control_def labels)
  moreover have "textContent (doc (update_display w)) p = Some (Number_toString (num k))"
    if "currentSlideSpan (this w) = Some p" for p
    using that sh(2) [of p] d(2) [of p] d(4) [of p] kn
    by (auto simp: in_controls)
  moreover have "width_at (doc (update_display w)) p = Some (Number_toString (Fin (percent k n)) @ ''%'')"
    if "progressFill (this w) = Some p" for p
  proof -
    from that d(3) [of p] d(5) [of p]
    have "prevBtn (this w) \<noteq> Some p" "nextBtn (this w) \<noteq> Some p" by auto
    with that sh(1) [of p] ex [of p] pc show ?thesis
      by (auto simp: width_at_def in_controls)
  qed
  ultimately show ?thesis
    using kn by (simp add: display_synced_def Let_def abs_ctl_def split: option.splits)
qed

text \<open>Whether the display is in step depends on what the controls show, on nothing else.\<close>

lemma display_synced_cong:
  assumes "this w' = this w"
    "\<And>q. prevBtn (this w) = Some q \<or> nextBtn (this w) = Some q \<or>
         currentSlideSpan (this w) = Some q \<or> progressFill (this w) = Some q \<Longrightarrow>
       elem_at (doc w') q = elem_at (doc w) q \<and> textContent (doc w') q = textContent (doc w) q"
  shows "display_synced w' = display_synced w"
  using assms(2)
  by (simp add: display_synced_def Let_def assms(1) view_at_def width_at_def abs_ctl_def
      split: option.splits)

lemma display_synced_announceSlideChange:
  "layout_ok w \<Longrightarrow> display_synced (announceSlideChange w) = display_synced w"
  by (rule display_synced_cong) (auto simp: announceSlideChange_shows in_controls)

lemma display_synced_refresh:
  assumes "layout_ok w" "position_ok w"
  shows "display_synced (refresh_display w)"
  using assms
  by (simp add: refresh_display_def display_synced_announceSlideChange layout_ok_update_display
      display_synced_update_display)

lemma position_ok_mark_active:
  assumes "position_ok w" "safe_int n" "\<not> js_lt n (Fin 1)" "\<not> js_gt n (totalSlides (this w))"
  shows "position_ok (mark_active n w)"
proof -
  from assms(2) obtain x where x: "n = num x" by (auto elim: safe_intE)
  from assms(1) obtain m where m: "totalSlides (this w) = num m" by (auto elim: position_okE)
  from assms(3,4) x m have "1 \<le> x" "x \<le> deck_size w" by simp_all
  moreover have "this (mark_active n w) = (this w)\<lparr>currentSlide := num x\<rparr>" by (simp add: x)
  ultimately show ?thesis by (rule position_ok_moved [OF assms(1), rotated])
qed

lemma abs_ctl_update_display [simp]: "abs_ctl (update_display w) = abs_ctl w"
  by (simp add: abs_ctl_def)

lemma abs_ctl_refresh_display [simp]: "abs_ctl (refresh_display w) = abs_ctl w"
  by (simp add: abs_ctl_def)

lemma display_synced_goToSlide [wf_keep]:
  assumes "layout_ok w \<and> display_synced w" "position_ok w" "safe_int n"
  shows "layout_ok (goToSlide n w) \<and> display_synced (goToSlide n w)"
proof (cases "js_lt n (Fin 1) \<or> js_gt n (totalSlides (this w))")
  case True
  with assms(1) show ?thesis by (simp add: goToSlide_halves)
next
  case False
  with assms have "layout_ok (mark_active n w)" "position_ok (mark_active n w)"
    by (simp_all add: layout_ok_mark_active position_ok_mark_active)
  then have "display_synced (refresh_display (mark_active n w))"
    by (rule display_synced_refresh)
  with False assms(1) show ?thesis
    by (simp add: goToSlide_halves layout_ok_refresh_display layout_ok_mark_active)
qed

lemma layout_ok_touch [simp]: "layout_ok (w\<lparr>touch := t\<rparr>) = layout_ok w"
  by (simp add: layout_ok_def)

lemma display_synced_touch [simp]: "display_synced (w\<lparr>touch := t\<rparr>) = display_synced w"
  by (simp add: display_synced_def)

text \<open>The three conditions under which the display can be trusted.\<close>

definition shown_ok :: "world \<Rightarrow> bool" where
  "shown_ok w \<longleftrightarrow> layout_ok w \<and> position_ok w \<and> display_synced w"

lemma shown_ok_dispatch [wf_keep]:
  assumes "shown_ok w"
  shows "shown_ok (fst (dispatch t ev w))"
proof -
  from assms have "layout_ok w \<and> display_synced w" "position_ok w" by (simp_all add: shown_ok_def)
  then have "layout_ok (fst (dispatch t ev w)) \<and> display_synced (fst (dispatch t ev w))"
    by (rule dispatch_preserves [where I = "\<lambda>w. layout_ok w \<and> display_synced w", rotated 2])
      (simp_all add: display_synced_goToSlide)
  with assms show ?thesis by (simp add: shown_ok_def position_ok_dispatch)
qed

lemma shown_ok_run_events [wf_keep]: "shown_ok w \<Longrightarrow> shown_ok (run_events evs w)"
  unfolding run_events_def by (induction evs arbitrary: w) (auto simp: shown_ok_dispatch)

lemma shown_ok_goToSlide [wf_keep]: "shown_ok w \<Longrightarrow> shown_ok (goToSlide (num k) w)"
proof -
  assume w: "shown_ok w"
  then obtain m where m: "totalSlides (this w) = num m" "m \<le> 2 ^ 53"
    by (auto simp: shown_ok_def elim: position_okE)
  show ?thesis
  proof (cases "k < 1 \<or> m < k")
    case True
    with w m show ?thesis by (simp add: goToSlide_out_of_range)
  next
    case False
    with m have "safe_int (num k)" by simp
    with w show ?thesis
      using display_synced_goToSlide [of w "num k"]
      by (simp add: shown_ok_def position_ok_goToSlide_num)
  qed
qed

lemma shown_okD: "shown_ok w \<Longrightarrow> position_ok w"
  by (simp add: shown_ok_def)

lemma shown_ok_touch [simp]: "shown_ok (w\<lparr>touch := t\<rparr>) = shown_ok w"
  by (simp add: shown_ok_def position_ok_def)

lemma shown_ok_safe [wf_keep]: "shown_ok w \<Longrightarrow> safe_int n \<Longrightarrow> shown_ok (goToSlide n w)"
  by (auto elim!: safe_intE simp: shown_ok_goToSlide)

lemma shown_ok_navigation [wf_keep]:
  assumes "shown_ok w"
  shows "shown_ok (nextSlide w)" "shown_ok (previousSlide w)"
proof -
  from assms have w: "layout_ok w \<and> display_synced w" "position_ok w" by (simp_all add: shown_ok_def)
  note nav = navigation_preserves [where I = "\<lambda>w. layout_ok w \<and> display_synced w", OF _ w]
  from nav(1,2) w(2) show "shown_ok (nextSlide w)" "shown_ok (previousSlide w)"
    by (simp_all add: shown_ok_def display_synced_goToSlide wf_keep)
qed

text \<open>Rewriting the counter, as the visibility and resize handlers do, changes nothing.\<close>

lemma shown_ok_updateSlideDisplay [wf_keep]:
  assumes "shown_ok w"
  shows "shown_ok (updateSlideDisplay w)"
proof -
  from assms have w: "layout_ok w" "display_synced w" "position_ok w" by (simp_all add: shown_ok_def)
  have "display_synced (updateSlideDisplay w) = display_synced w"
  proof (rule display_synced_cong)
    fix q
    assume "prevBtn (this w) = Some q \<or> nextBtn (this w) = Some q \<or>
      currentSlideSpan (this w) = Some q \<or> progressFill (this w) = Some q"
    then have "q \<in> set (controls (this w))" by (auto simp: in_controls)
    from updateSlideDisplay_shows [OF w(1) this] w(2)
    show "elem_at (doc (updateSlideDisplay w)) q = elem_at (doc w) q \<and>
      textContent (doc (updateSlideDisplay w)) q = textContent (doc w) q"
      by (auto simp: display_synced_def Let_def)
  qed simp
  with w show ?thesis by (simp add: shown_ok_def wf_keep)
qed

text \<open>Neither does a change of the classes of the body.\<close>

lemma shown_ok_body_class [wf_keep]:
  assumes "shown_ok w" "\<And>e. elem_id (g e) = elem_id e"
  shows "shown_ok (w\<lparr>doc := upd_elem [] g (doc w)\<rparr>)"
proof -
  let ?w = "w\<lparr>doc := upd_elem [] g (doc w)\<rparr>"
  from assms(1) have w: "layout_ok w" "display_synced w" "position_ok w" by (simp_all add: shown_ok_def)
  from w(1) assms(2) have "layout_ok ?w" by (simp add: layout_ok_def laid_out_upd_elem)
  moreover have "display_synced ?w = display_synced w"
  proof (rule display_synced_cong)
    fix q
    assume "prevBtn (this w) = Some q \<or> nextBtn (this w) = Some q \<or>
      currentSlideSpan (this w) = Some q \<or> progressFill (this w) = Some q"
    then have "q \<in> set (controls (this w))" by (auto simp: in_controls)
    with w(1) have "q \<noteq> []" by (auto simp: layout_ok_def dest: laid_out_control(1))
    then show "elem_at (doc ?w) q = elem_at (doc w) q \<and> textContent (doc ?w) q = textContent (doc w) q"
      by (simp add: elem_at_upd_elem)
  qed simp
  moreover from w(3) have "position_ok ?w" by (simp add: position_ok_cong [of ?w w])
  ultimately show ?thesis using w(2) by (simp add: shown_ok_def)
qed

section \<open>The constructor\<close>

text \<open>
  A markup follows the host contract when the controls the constructor finds
  in it are laid out beside each other.
\<close>

definition markup_ok :: "node \<Rightarrow> bool" where
  "markup_ok d \<longleftrightarrow> laid_out (controls (new_object d)) d"

lemma doc_init:
  "doc (init w) =
     (case totalSlidesSpan (this w) of
        Some p \<Rightarrow> set_textContent p (Number_toString (totalSlides (this w))) (doc (update_display w))
      | None \<Rightarrow> doc (update_display w))"
  by (simp add: init_def update_display_def Let_def split: option.splits)

lemma shown_ok_init:
  assumes "layout_ok w" "position_ok w"
  shows "shown_ok (init w)"
proof -
  let ?u = "update_display w"
  from assms have u: "layout_ok ?u" "display_synced ?u"
    by (simp_all add: layout_ok_update_display display_synced_update_display)
  have "layout_ok (init w)"
    using u(1) by (simp add: layout_ok_def doc_init laid_out_set_textContent in_controls split: option.splits)
  moreover have "display_synced (init w) = display_synced ?u"
  proof (rule display_synced_cong)
    fix q
    assume q: "prevBtn (this ?u) = Some q \<or> nextBtn (this ?u) = Some q \<or>
      currentSlideSpan (this ?u) = Some q \<or> progressFill (this ?u) = Some q"
    then have qc: "q \<in> set (controls (this w))" by (auto simp: in_controls)
    show "elem_at (doc (init w)) q = elem_at (doc ?u) q \<and>
      textContent (doc (init w)) q = textContent (doc ?u) q"
    proof (cases "totalSlidesSpan (this w)")
      case None
      then show ?thesis by (simp add: doc_init)
    next
      case (Some p)
      with q distinct_total [OF layout_ok_distinct [OF assms(1)] Some] have "q \<noteq> p" by auto
      with Some qc u(1) show ?thesis
        by (simp add: doc_init layout_ok_def in_controls
            set_textContent_shows [where cs = "controls (this w)"])
    qed
  qed simp
  moreover from assms(2) have "position_ok (init w)"
    by (simp add: position_ok_cong [of "init w" w])
  ultimately show ?thesis using u(2) by (simp add: shown_ok_def)
qed

lemma shown_ok_new_Presentation: "markup_ok d \<Longrightarrow> shown_ok (new_Presentation d ls)"
  unfolding new_Presentation_def
  by (rule shown_ok_init) (simp_all add: layout_ok_def markup_ok_def position_ok_def)

section \<open>The sample page is laid out and in step\<close>

lemma sample_controls: "controls (this sample_world) = [[2], [5], [3], [4], [1]]"
  by (simp add: controls_def List.map_filter_simps)

lemma sample_live: "querySelectorAll (ById ''slide-announcement'') sample_doc = []"
  by code_simp

lemma sample_elems: "list_all (\<lambda>p. elem_at sample_doc p \<noteq> None) [[2], [5], [3], [4], [1]]"
  by code_simp

lemma doc_sample_world [simp]: "doc sample_world = sample_doc"
  by (simp add: sample_world_def)

lemma elem_of_sample_doc [simp]: "elem_of sample_doc \<noteq> None"
  by (simp add: sample_doc_def)

lemma sample_layout_ok: "layout_ok sample_world"
  using sample_elems
  by (simp add: layout_ok_def laid_out_def sample_controls sample_live parallel_def
      del: in_querySelectorAll)

lemma sample_views:
  "view_at sample_doc [2] = Some \<lparr>is_disabled = True, label = ''Start''\<rparr>"
  "view_at sample_doc [5] = Some \<lparr>is_disabled = False, label = next_label\<rparr>"
  "textContent sample_doc [3] = Some ''1''"
  "width_at sample_doc [1] = Some ''10%''"
  by code_simp+

lemma percent_1_10: "percent 1 10 = 10"
  by code_simp

lemma sample_display_synced: "display_synced sample_world"
  using Number_toString_1_10 sample_views
  by (simp add: display_synced_def abs_ctl_def prev_control_def next_control_def percent_1_10)

lemma sample_markup_controls: "controls (new_object sample_page) = [[2], [5], [3], [4], [1]]"
  unfolding controls_def new_object_def by code_simp

lemma sample_markup_live: "querySelectorAll (ById ''slide-announcement'') sample_page = []"
  by code_simp

lemma sample_markup_elems:
  "list_all (\<lambda>p. elem_at sample_page p \<noteq> None) [[2], [5], [3], [4], [1]]"
  by code_simp

lemma sample_markup_ok: "markup_ok sample_page"
proof -
  have "elem_of sample_page \<noteq> None" by (simp add: sample_page_def)
  with sample_markup_elems show ?thesis
    by (simp add: markup_ok_def laid_out_def sample_markup_controls sample_markup_live parallel_def
        del: in_querySelectorAll)
qed

lemma sample_shown_ok [simp]: "shown_ok sample_world"
  by (simp add: shown_ok_def sample_layout_ok sample_display_synced)

section \<open>Properties of the display\<close>

text \<open>
  C13 (functional). On a page whose controls are laid out beside each other,
  a navigation to a slide in range leaves the display in step with the new
  position, whatever the display showed before: the buttons show their row
  of the table, the counter the position and the bar the percentage.
\<close>

theorem goToSlide_refreshes_display:
  assumes "layout_ok w" "position_ok w" "1 \<le> k" "k \<le> deck_size w"
  shows "display_synced (goToSlide (num k) w) \<and> position (goToSlide (num k) w) = k"
proof -
  from assms(2) obtain n where n: "totalSlides (this w) = num n" "n \<le> 2 ^ 53"
    by (auto elim: position_okE)
  with assms(3,4) have "safe_int (num k)" "\<not> js_lt (num k) (Fin 1)"
    "\<not> js_gt (num k) (totalSlides (this w))" by simp_all
  with assms(1,2) have "layout_ok (mark_active (num k) w)" "position_ok (mark_active (num k) w)"
    by (simp_all add: layout_ok_mark_active position_ok_mark_active)
  then have "display_synced (refresh_display (mark_active (num k) w))"
    by (rule display_synced_refresh)
  with assms n show ?thesis by (simp add: goToSlide_halves position_goToSlide)
qed

theorem goToSlide_refreshes_display_witness:
  "view_at (doc (goToSlide (Fin 10) sample_world)) [5] = Some \<lparr>is_disabled = True, label = ''End''\<rparr> \<and>
   view_at (doc (goToSlide (Fin 10) sample_world)) [2] =
     Some \<lparr>is_disabled = False, label = larrow @ '' Previous''\<rparr> \<and>
   textContent (doc (goToSlide (Fin 10) sample_world)) [3] = Some ''10'' \<and>
   width_at (doc (goToSlide (Fin 10) sample_world)) [1] = Some ''100%''"
  using goToSlide_refreshes_display [of sample_world 10] sample_layout_ok Number_toString_1_10
    percent_full [of 10] Number_toString_100
  by (simp add: display_synced_def Let_def this_goToSlide abs_ctl_def prev_control_def
      next_control_def labels)

text \<open>
  C8 (invariant). Once the display is in step with the position it stays in
  step, whatever events arrive: after any run of clicks, keys and touches the
  two buttons show the row of the specified table that belongs to the position
  reached, the counter shows that position and the bar its percentage.
\<close>

theorem display_stays_in_step:
  assumes "shown_ok w"
  shows "shown_ok (run_events evs w) \<and>
    (\<forall>p. prevBtn (this w) = Some p \<longrightarrow>
         view_at (doc (run_events evs w)) p = Some (prev_control (abs_ctl (run_events evs w)))) \<and>
    (\<forall>p. nextBtn (this w) = Some p \<longrightarrow>
         view_at (doc (run_events evs w)) p = Some (next_control (abs_ctl (run_events evs w)))) \<and>
    (\<forall>p. currentSlideSpan (this w) = Some p \<longrightarrow>
         textContent (doc (run_events evs w)) p =
           Some (Number_toString (currentSlide (this (run_events evs w)))))"
proof -
  let ?w = "run_events evs w"
  from assms have ok: "shown_ok ?w" by (rule shown_ok_run_events)
  from assms have "same_object w ?w"
    by (intro same_object_run_events) (simp_all add: shown_ok_def)
  note f = same_object_fields [OF this]
  from ok have "display_synced ?w" by (simp add: shown_ok_def)
  with ok show ?thesis
    by (auto simp: display_synced_def Let_def f split: option.splits)
qed

theorem display_stays_in_step_witness:
  "shown_ok (run_events [(Document, Key ''End''), (Element [2], Click)] sample_world) \<and>
   view_at (doc (run_events [(Document, Key ''End''), (Element [2], Click)] sample_world)) [2] =
     Some (prev_control (abs_ctl (run_events [(Document, Key ''End''), (Element [2], Click)] sample_world)))"
  using display_stays_in_step [of sample_world "[(Document, Key ''End''), (Element [2], Click)]"]
  by simp

text \<open>
  C23 (bounds). The percentage of the progress bar, computed in doubles as
  \<open>(currentSlide / totalSlides) * 100\<close>: it is a positive finite number, it
  does not decrease when the position increases, and it is exactly 100 at the
  last slide and at no other.
\<close>

theorem progress_percentage:
  assumes "1 \<le> k" "k \<le> k'" "k' \<le> n" "n \<le> 2 ^ 53"
  shows "js_mul (js_div (num k) (num n)) (Fin 100) = Fin (percent k n) \<and>
         0 < percent k n \<and> percent k n \<le> percent k' n \<and> (percent k n = 100 \<longleftrightarrow> k = n)"
proof -
  from assms have "js_mul (js_div (num k) (num n)) (Fin 100) = Fin (percent k n)"
    by (intro progress_percent) simp_all
  moreover from assms have "0 < percent k n" by (intro percent_pos) simp_all
  moreover from assms have "percent k n \<le> percent k' n" by (intro percent_mono) simp_all
  moreover have "percent k n = 100 \<longleftrightarrow> k = n"
  proof (cases "k = n")
    case True
    with assms(1) show ?thesis by (simp add: percent_full)
  next
    case False
    with assms have "percent k n < 100" by (intro percent_less) simp_all
    with False show ?thesis by simp
  qed
  ultimately show ?thesis by blast
qed

theorem progress_percentage_witness:
  "js_mul (js_div (Fin 3) (Fin 10)) (Fin 100) = Fin (percent 3 10) \<and> 0 < percent 3 10 \<and>
   percent 3 10 \<le> percent 7 10 \<and> percent 3 10 \<noteq> 100"
  using progress_percentage [of 3 7 10] by simp



end
