(* ===== verification/Page.thy ===== *)
theory Page
  imports Refinement
begin

text \<open>
  The page script of \<open>src/app.js\<close> (lines 236 to 312): what runs around the
  class. The handler of \<open>DOMContentLoaded\<close> starts a timer; when it fires the
  object is constructed and stored in \<open>window.presentation\<close>, a second click
  handler is assigned to the \<open>onclick\<close> property of each button, the body
  is marked as loaded and \<open>window.presentationAPI\<close> is defined. Two more
  handlers refresh the counter when the tab becomes visible and, through a
  timer, when the window is resized.

  The state of the page holds the object as an option, so that every
  \<open>if (window.presentation)\<close> of the source is a case distinction here.
\<close>

section \<open>State\<close>

datatype task = InitTask | RefreshTask

datatype onclick_handler = PrevOnclick | NextOnclick

record page =
  window_presentation :: "presentation option"
  document :: node
  registered :: "listener list"
  closure :: touch_vars
  onclick :: "(path \<times> onclick_handler) list"
  window_presentationAPI :: bool
  timers :: "task list"

text \<open>The page when the script has been evaluated and no event has arrived.\<close>

definition load_page :: "node \<Rightarrow> page" where
  "load_page d =
     \<lparr>window_presentation = None, document = d, registered = [],
      closure = \<lparr>startX = Fin 0, startY = Fin 0, endX = Fin 0, endY = Fin 0\<rparr>,
      onclick = [], window_presentationAPI = False, timers = []\<rparr>"

definition world_of :: "presentation \<Rightarrow> page \<Rightarrow> world" where
  "world_of t pg = \<lparr>this = t, doc = document pg, listeners = registered pg, touch = closure pg\<rparr>"

definition store_world :: "world \<Rightarrow> page \<Rightarrow> page" where
  "store_world w pg =
     pg\<lparr>window_presentation := Some (this w), document := doc w,
        registered := listeners w, closure := touch w\<rparr>"

text \<open>\<open>if (window.presentation) window.presentation.m()\<close>\<close>

definition if_presentation :: "(world \<Rightarrow> world) \<Rightarrow> page \<Rightarrow> page" where
  "if_presentation m pg =
     (case window_presentation pg of
        Some t \<Rightarrow> store_world (m (world_of t pg)) pg
      | None \<Rightarrow> pg)"

section \<open>The programmatic interface\<close>

fun perform :: "command \<Rightarrow> world \<Rightarrow> world" where
  "perform Next w = nextSlide w"
| "perform Previous w = previousSlide w"
| "perform (GoTo n) w = navigateToSlide (num n) w"
| "perform Reset w = reset w"

lemma abs_perform:
  "position_ok w \<Longrightarrow> abs_ctl (perform cmd w) = ctl_step cmd (abs_ctl w)"
  by (cases cmd)
    (simp_all add: abs_nextSlide abs_previousSlide abs_reset abs_goToSlide navigateToSlide_def)

lemma position_ok_perform [wf_keep]: "position_ok w \<Longrightarrow> position_ok (perform cmd w)"
  by (cases cmd) (simp_all add: navigateToSlide_def reset_def wf_keep)

lemma position_ok_fold_perform [wf_keep]:
  "position_ok w \<Longrightarrow> position_ok (fold perform cmds w)"
  by (induction cmds arbitrary: w) (simp_all add: position_ok_perform)

lemma perform_preserves:
  assumes go: "\<And>w n. I w \<Longrightarrow> position_ok w \<Longrightarrow> safe_int n \<Longrightarrow> I (goToSlide n w)"
    and "I w" "position_ok w"
  shows "I (perform cmd w)"
  using navigation_preserves [of I, OF go assms(2,3)] goToSlide_num_preserves [of I, OF go assms(2,3)]
  by (cases cmd) (simp_all add: navigateToSlide_def reset_def)

lemma fold_perform_preserves:
  assumes go: "\<And>w n. I w \<Longrightarrow> position_ok w \<Longrightarrow> safe_int n \<Longrightarrow> I (goToSlide n w)"
    and "I w" "position_ok w"
  shows "I (fold perform cmds w)"
  using assms(2,3)
  by (induction cmds arbitrary: w) (simp_all add: perform_preserves [of I, OF go] position_ok_perform)

lemma abs_fold_perform:
  "position_ok w \<Longrightarrow> abs_ctl (fold perform cmds w) = ctl_run cmds (abs_ctl w)"
  by (induction cmds arbitrary: w) (simp_all add: ctl_run_def abs_perform position_ok_perform)

lemma totalSlides_perform [simp, frame]:
  "totalSlides (this (perform cmd w)) = totalSlides (this w)"
  by (cases cmd) (simp_all add: navigateToSlide_def reset_def)

text \<open>
  A call through \<open>window.presentationAPI\<close>. While the property is undefined
  the call is a \<open>TypeError\<close> in the caller, the value \<open>None\<close> here.
\<close>

definition api_call :: "command \<Rightarrow> page \<Rightarrow> page option" where
  "api_call c pg =
     (if window_presentationAPI pg then Some (if_presentation (perform c) pg) else None)"

definition api_getCurrentInfo :: "page \<Rightarrow> slide_info option option" where
  "api_getCurrentInfo pg =
     (if window_presentationAPI pg
      then Some (map_option (\<lambda>t. getCurrentSlideInfo (world_of t pg)) (window_presentation pg))
      else None)"

section \<open>Loading\<close>

definition DOMContentLoaded :: "page \<Rightarrow> page" where
  "DOMContentLoaded pg = pg\<lparr>timers := timers pg @ [InitTask]\<rparr>"

definition set_onclick :: "string \<Rightarrow> onclick_handler \<Rightarrow> page \<Rightarrow> page" where
  "set_onclick i h pg =
     (case getElementById i (document pg) of
        Some p \<Rightarrow> pg\<lparr>onclick := AList.update p h (onclick pg)\<rparr>
      | None \<Rightarrow> pg)"

definition init_task :: "page \<Rightarrow> page" where
  "init_task pg =
     (let pg1 = store_world (new_Presentation (document pg) (registered pg)) pg;
          pg2 = set_onclick ''nextBtn'' NextOnclick (set_onclick ''prevBtn'' PrevOnclick pg1);
          pg3 = pg2\<lparr>document := upd_elem [] (classList_add ''loaded'') (document pg2)\<rparr>
      in pg3\<lparr>window_presentationAPI := True\<rparr>)"

fun run_task :: "task \<Rightarrow> page \<Rightarrow> page" where
  "run_task InitTask pg = init_task pg"
| "run_task RefreshTask pg = if_presentation updateSlideDisplay pg"

section \<open>Events\<close>

text \<open>
  The events of a loaded page: a timer fires (both timers of the script wait
  100 ms, so they fire in the order they were started), the tab changes
  visibility, the window is resized, the user clicks, types or touches, or
  another script calls \<open>window.presentationAPI\<close>. A call made while the
  interface is undefined fails in the caller and leaves the page as it is.
\<close>

datatype page_event =
  TimerFires | VisibilityChange bool | Resize | Input target event | Call command

definition run_onclick :: "path \<Rightarrow> page \<Rightarrow> page" where
  "run_onclick p pg =
     (case map_of (onclick pg) p of
        Some PrevOnclick \<Rightarrow> if_presentation previousSlide pg
      | Some NextOnclick \<Rightarrow> if_presentation nextSlide pg
      | None \<Rightarrow> pg)"

text \<open>
  A click on an enabled element runs the listeners added with
  \<open>addEventListener\<close> and then the handler in its \<open>onclick\<close> property, which
  was assigned after them.
\<close>

definition page_click :: "path \<Rightarrow> page \<Rightarrow> page" where
  "page_click p pg =
     (case elem_at (document pg) p of
        Some e \<Rightarrow>
          if disabled e then pg
          else run_onclick p (if_presentation (\<lambda>w. fst (dispatch (Element p) Click w)) pg)
      | None \<Rightarrow> pg)"

fun page_step :: "page_event \<Rightarrow> page \<Rightarrow> page" where
  "page_step TimerFires pg =
     (case timers pg of [] \<Rightarrow> pg | t # ts \<Rightarrow> run_task t (pg\<lparr>timers := ts\<rparr>))"
| "page_step (VisibilityChange visible) pg =
     (if visible then if_presentation updateSlideDisplay pg else pg)"
| "page_step Resize pg =
     (if window_presentation pg \<noteq> None then pg\<lparr>timers := timers pg @ [RefreshTask]\<rparr> else pg)"
| "page_step (Input (Element p) Click) pg = page_click p pg"
| "page_step (Input t ev) pg = if_presentation (\<lambda>w. fst (dispatch t ev w)) pg"
| "page_step (Call c) pg = (case api_call c pg of Some pg' \<Rightarrow> pg' | None \<Rightarrow> pg)"

definition page_run :: "page_event list \<Rightarrow> page \<Rightarrow> page" where
  "page_run evs pg = fold page_step evs pg"

text \<open>A page from its markup to the moment the constructor has run.\<close>

definition loaded_page :: "node \<Rightarrow> page" where
  "loaded_page d = page_step TimerFires (DOMContentLoaded (load_page d))"

section \<open>Well-formed pages\<close>

text \<open>
  Before the object exists nothing refers to it: the interface is undefined
  and no refresh is waiting. Once it exists the interface is defined, the
  deck has the ten slides of the constructor and the position is in range.
\<close>

definition page_ok :: "page \<Rightarrow> bool" where
  "page_ok pg \<longleftrightarrow>
     (case window_presentation pg of
        None \<Rightarrow> \<not> window_presentationAPI pg \<and> RefreshTask \<notin> set (timers pg)
      | Some t \<Rightarrow> window_presentationAPI pg \<and> totalSlides t = Fin 10 \<and>
                  position_ok (world_of t pg))"

definition page_position :: "page \<Rightarrow> int option" where
  "page_position pg = map_option (\<lambda>t. int_of (currentSlide t)) (window_presentation pg)"

section \<open>The world inside a page\<close>

lemma world_of_simps [simp]:
  "this (world_of t pg) = t" "doc (world_of t pg) = document pg"
  "listeners (world_of t pg) = registered pg" "touch (world_of t pg) = closure pg"
  by (simp_all add: world_of_def)

lemma store_world_simps [simp]:
  "window_presentation (store_world w pg) = Some (this w)"
  "document (store_world w pg) = doc w" "registered (store_world w pg) = listeners w"
  "closure (store_world w pg) = touch w" "onclick (store_world w pg) = onclick pg"
  "window_presentationAPI (store_world w pg) = window_presentationAPI pg"
  "timers (store_world w pg) = timers pg"
  by (simp_all add: store_world_def)

lemma world_of_store_world [simp]: "world_of (this w) (store_world w pg) = w"
  by (simp add: world_of_def)

lemma world_of_update [simp]:
  "world_of t (pg\<lparr>timers := ts\<rparr>) = world_of t pg"
  "world_of t (pg\<lparr>onclick := oc\<rparr>) = world_of t pg"
  "world_of t (pg\<lparr>window_presentationAPI := b\<rparr>) = world_of t pg"
  by (simp_all add: world_of_def)

lemma if_presentation_None [simp]:
  "window_presentation pg = None \<Longrightarrow> if_presentation m pg = pg"
  by (simp add: if_presentation_def)

lemma if_presentation_Some:
  "window_presentation pg = Some t \<Longrightarrow> if_presentation m pg = store_world (m (world_of t pg)) pg"
  by (simp add: if_presentation_def)

lemma if_presentation_frame [simp, frame]:
  "onclick (if_presentation m pg) = onclick pg"
  "window_presentationAPI (if_presentation m pg) = window_presentationAPI pg"
  "timers (if_presentation m pg) = timers pg"
  "window_presentation (if_presentation m pg) = None \<longleftrightarrow> window_presentation pg = None"
  by (simp_all add: if_presentation_def split: option.splits)

lemma page_ok_Some:
  "window_presentation pg = Some t \<Longrightarrow>
     page_ok pg \<longleftrightarrow>
       window_presentationAPI pg \<and> totalSlides t = Fin 10 \<and> position_ok (world_of t pg)"
  by (simp add: page_ok_def)

lemma page_ok_if_presentation [wf_keep]:
  assumes "page_ok pg" "\<And>w. position_ok w \<Longrightarrow> position_ok (m w)"
    "\<And>w. totalSlides (this (m w)) = totalSlides (this w)"
  shows "page_ok (if_presentation m pg)"
proof (cases "window_presentation pg")
  case None
  with assms(1) show ?thesis by simp
next
  case (Some t)
  with assms(1) have "position_ok (m (world_of t pg))" "totalSlides (this (m (world_of t pg))) = Fin 10"
    by (simp_all add: page_ok_Some assms(2,3))
  with assms(1) Some show ?thesis
    by (simp add: if_presentation_Some page_ok_def)
qed

section \<open>Every step keeps the page well formed\<close>

lemma page_ok_load_page [simp]: "page_ok (load_page d)"
  by (simp add: page_ok_def load_page_def)

lemma page_ok_DOMContentLoaded [wf_keep]: "page_ok pg \<Longrightarrow> page_ok (DOMContentLoaded pg)"
  by (auto simp: page_ok_def DOMContentLoaded_def world_of_def split: option.splits)

lemma set_onclick_frame [simp, frame]:
  "window_presentation (set_onclick i h pg) = window_presentation pg"
  "document (set_onclick i h pg) = document pg"
  "registered (set_onclick i h pg) = registered pg"
  "closure (set_onclick i h pg) = closure pg"
  "window_presentationAPI (set_onclick i h pg) = window_presentationAPI pg"
  "timers (set_onclick i h pg) = timers pg"
  by (simp_all add: set_onclick_def split: option.splits)

lemma init_task_this:
  "window_presentation (init_task pg) = Some (this (new_Presentation (document pg) (registered pg)))"
  "window_presentationAPI (init_task pg)"
  by (simp_all add: init_task_def Let_def)

lemma world_of_init_task:
  "world_of (new_object (document pg)) (init_task pg) =
     (new_Presentation (document pg) (registered pg))
       \<lparr>doc := upd_elem [] (classList_add ''loaded'')
                 (doc (new_Presentation (document pg) (registered pg)))\<rparr>"
  by (simp add: init_task_def Let_def world_of_def)

lemma timers_init_task [simp, frame]: "timers (init_task pg) = timers pg"
  by (simp add: init_task_def Let_def)

lemma page_ok_init_task [wf_keep]: "page_ok (init_task pg)"
  unfolding page_ok_Some [OF init_task_this(1)]
  using position_ok_new_Presentation [of "document pg" "registered pg"]
  by (simp add: init_task_this position_ok_def)

lemma page_ok_run_task [wf_keep]: "page_ok pg \<Longrightarrow> page_ok (run_task t pg)"
  by (cases t) (simp_all add: wf_keep)

lemma page_ok_drop_timer: "page_ok pg \<Longrightarrow> timers pg = t # ts \<Longrightarrow> page_ok (pg\<lparr>timers := ts\<rparr>)"
  by (auto simp: page_ok_def world_of_def split: option.splits)

lemma page_ok_run_onclick [wf_keep]: "page_ok pg \<Longrightarrow> page_ok (run_onclick p pg)"
  by (simp add: run_onclick_def wf_keep split: option.splits onclick_handler.splits)

lemma page_ok_dispatch [wf_keep]:
  "page_ok pg \<Longrightarrow> page_ok (if_presentation (\<lambda>w. fst (dispatch t ev w)) pg)"
  by (simp add: wf_keep)

lemma page_ok_page_click [wf_keep]: "page_ok pg \<Longrightarrow> page_ok (page_click p pg)"
  by (simp add: page_click_def wf_keep split: option.splits)

lemma api_call_result [simp]:
  "(case api_call c pg of Some pg' \<Rightarrow> pg' | None \<Rightarrow> pg) =
     (if window_presentationAPI pg then if_presentation (perform c) pg else pg)"
  by (simp add: api_call_def)

lemma page_ok_perform [wf_keep]: "page_ok pg \<Longrightarrow> page_ok (if_presentation (perform c) pg)"
  by (simp add: wf_keep)

lemma page_ok_page_step [wf_keep]: "page_ok pg \<Longrightarrow> page_ok (page_step ev pg)"
proof (induction ev pg rule: page_step.induct)
  case (1 pg)
  then show ?case
    by (auto simp: page_ok_run_task page_ok_drop_timer split: list.splits)
next
  case (3 pg)
  then show ?case by (auto simp: page_ok_def world_of_def split: option.splits)
qed (simp_all add: wf_keep)

lemma page_ok_page_run [wf_keep]: "page_ok pg \<Longrightarrow> page_ok (page_run evs pg)"
  unfolding page_run_def by (induction evs arbitrary: pg) (simp_all add: page_ok_page_step)

lemma page_ok_position:
  assumes "page_ok pg" "page_position pg = Some k"
  shows "1 \<le> k \<and> k \<le> 10"
proof -
  from assms(2) obtain t where t: "window_presentation pg = Some t" "k = int_of (currentSlide t)"
    by (auto simp: page_position_def)
  with assms(1) have "totalSlides t = Fin 10" "position_ok (world_of t pg)"
    by (simp_all add: page_ok_Some)
  with t show ?thesis by (simp add: position_ok_def)
qed

lemma page_ok_loaded_page [simp]: "page_ok (loaded_page d)"
  unfolding loaded_page_def
  by (intro page_ok_page_step page_ok_DOMContentLoaded page_ok_load_page)

section \<open>The interface stays defined\<close>

lemma api_run_task: "window_presentationAPI pg \<Longrightarrow> window_presentationAPI (run_task t pg)"
  by (cases t) (simp_all add: init_task_this)

lemma api_page_step: "window_presentationAPI pg \<Longrightarrow> window_presentationAPI (page_step ev pg)"
  by (induction ev pg rule: page_step.induct)
    (simp_all add: page_click_def run_onclick_def api_run_task
      split: list.splits option.splits onclick_handler.splits)

lemma api_page_run: "window_presentationAPI pg \<Longrightarrow> window_presentationAPI (page_run evs pg)"
  unfolding page_run_def by (induction evs arbitrary: pg) (simp_all add: api_page_step)

lemma api_loaded_page [simp]: "window_presentationAPI (loaded_page d)"
  by (simp add: loaded_page_def DOMContentLoaded_def load_page_def init_task_this)

section \<open>What a click runs\<close>

text \<open>The callbacks a click on an element runs before its \<open>onclick\<close> handler.\<close>

definition click_listeners :: "path \<Rightarrow> page \<Rightarrow> callback list" where
  "click_listeners p pg =
     map callback (filter (\<lambda>l. on_target l = Element p \<and> on_event l = ''click'') (registered pg))"

lemma fst_fold_deliver:
  "fst (fold (deliver ev) ls st) = fold (\<lambda>cb w. fst (run_callback cb ev w)) (map callback ls) (fst st)"
proof (induction ls arbitrary: st)
  case (Cons l ls)
  have "fst (deliver ev l st) = fst (run_callback (callback l) ev (fst st))"
    by (cases "run_callback (callback l) ev (fst st)") (simp add: deliver_def)
  with Cons.IH [of "deliver ev l st"] show ?case by simp
qed simp

lemma fst_dispatch_click:
  "fst (dispatch (Element p) Click (world_of t pg)) =
     fold (\<lambda>cb w. fst (run_callback cb Click w)) (click_listeners p pg) (world_of t pg)"
  by (simp add: dispatch_def click_listeners_def fst_fold_deliver)

lemma page_position_if_presentation:
  "page_position (if_presentation m pg) =
     map_option (\<lambda>t. position (m (world_of t pg))) (window_presentation pg)"
  by (simp add: page_position_def if_presentation_def split: option.splits)

section \<open>The sample page, loaded\<close>

definition sample_loaded :: page where
  "sample_loaded =
     \<lparr>window_presentation = Some (this sample_world),
      document = upd_elem [] (classList_add ''loaded'') sample_doc,
      registered = listeners sample_world,
      closure = touch sample_world,
      onclick = [([2], PrevOnclick), ([5], NextOnclick)],
      window_presentationAPI = True,
      timers = []\<rparr>"

text \<open>Loading the sample markup gives exactly this state.\<close>

lemma sample_loaded_correct: "loaded_page sample_page = sample_loaded"
  by code_simp

section \<open>Properties of the page\<close>

text \<open>
  C14 (invariant). From any markup, after the page has loaded and whatever
  timers, visibility changes, resizes, user inputs and calls of the
  interface with integer arguments follow in whatever order, the page is
  well formed: either the object does not exist yet and
  the interface is undefined, or the object shows one of its ten positions.
\<close>

theorem page_stays_well_formed:
  "page_ok (page_run evs (DOMContentLoaded (load_page d)))"
  by (intro page_ok_page_run page_ok_DOMContentLoaded page_ok_load_page)

text \<open>
  C7 (safety). Each button has two click handlers, the listener added by
  \<open>init\<close> and the handler assigned to \<open>onclick\<close> by the page script, and
  a click runs both: one click on the next button moves the position two
  slides forward (one at the last but one slide).
\<close>

theorem click_next_advances_twice:
  assumes "page_ok pg" "elem_at (document pg) p = Some e" "\<not> disabled e"
    "click_listeners p pg = [NextBtnClick]" "map_of (onclick pg) p = Some NextOnclick"
  shows "page_position (page_step (Input (Element p) Click) pg) =
           map_option (\<lambda>k. min (k + 2) 10) (page_position pg)"
proof (cases "window_presentation pg")
  case None
  with assms show ?thesis
    by (simp add: page_click_def run_onclick_def page_position_def)
next
  case (Some t)
  define w where "w = world_of t pg"
  from assms(1) Some have ok: "position_ok w" and ten: "deck_size w = 10"
    by (simp_all add: page_ok_Some w_def)
  have ok': "position_ok (nextSlide w)" using ok by (rule position_ok_nextSlide)
  have "page_position (page_step (Input (Element p) Click) pg) = Some (position (nextSlide (nextSlide w)))"
    using assms(2-5) Some
    by (simp add: page_click_def run_onclick_def if_presentation_Some fst_dispatch_click
        page_position_def w_def)
  also have "position (nextSlide (nextSlide w)) = min (position w + 2) 10"
    using ok ok' ten by (simp add: position_nextSlide)
  finally show ?thesis using Some by (simp add: page_position_def w_def)
qed

theorem click_next_advances_twice_witness:
  "page_position sample_loaded = Some 1 \<and>
   page_position (page_step (Input (Element [5]) Click) sample_loaded) = Some 3"
proof -
  have "page_ok sample_loaded"
    by (simp add: page_ok_def sample_loaded_def position_ok_def)
  moreover have "elem_at (document sample_loaded) [5] =
      Some (sample_el ''button'' ''nextBtn'' [] [])"
    by code_simp
  moreover have "click_listeners [5] sample_loaded = [NextBtnClick]"
    by (simp add: click_listeners_def sample_loaded_def sample_world_def)
  moreover have "map_of (onclick sample_loaded) [5] = Some NextOnclick"
    by (simp add: sample_loaded_def)
  moreover have "page_position sample_loaded = Some 1"
    by (simp add: page_position_def sample_loaded_def)
  ultimately show ?thesis
    using click_next_advances_twice [of sample_loaded "[5]" "sample_el ''button'' ''nextBtn'' [] []"]
    by (simp add: sample_el_def)
qed

text \<open>
  C36 (error). The programmatic interface does not exist before the timer of
  the load handler has fired: until then a call fails in the caller. From then
  on every call returns.
\<close>

theorem api_undefined_until_loaded:
  "api_call c (load_page d) = None \<and> api_call c (DOMContentLoaded (load_page d)) = None \<and>
   api_call c (page_run evs (loaded_page d)) \<noteq> None"
  by (simp add: api_call_def load_page_def DOMContentLoaded_def api_page_run api_loaded_page)

end
