(* ===== verification/Slides.thy ===== *)
theory Slides
  imports Display
begin

text \<open>
  The slides: which of them carries the class \<open>active\<close>. \<open>goToSlide\<close>
  removes the class from every slide the constructor has found and adds it to
  the first element whose \<open>data-slide\<close> attribute is the new position; no
  other method touches the classes of a slide. The theory states when a page
  keeps its slides apart from the controls and the live region (\<open>deck_ok\<close>),
  proves that every method keeps such a page so, that the selector of a
  slide finds the same element before and after every update, and that the
  slide of the current position, and no other, is the active one
  (\<open>active_ok\<close>) in every state that navigation reaches.
\<close>

section \<open>The deck\<close>

definition is_active :: "node \<Rightarrow> path \<Rightarrow> bool" where
  "is_active d s = (case elem_at d s of Some e \<Rightarrow> ''active'' \<in> set (classList e) | None \<Rightarrow> False)"

definition slide_for :: "jsnum \<Rightarrow> node \<Rightarrow> path option" where
  "slide_for n d = querySelector (ByAttr ''data-slide'' (Number_toString n)) d"

abbreviation marked :: "node \<Rightarrow> path \<Rightarrow> bool" where
  "marked \<equiv> has_attr ''data-slide''"

text \<open>
  A path is clear when it lies inside no control and inside no element with
  the \<open>id\<close> of the live region: no update of a text removes the element there.
\<close>

definition clear_at :: "world \<Rightarrow> path \<Rightarrow> bool" where
  "clear_at w q \<longleftrightarrow>
     (\<forall>p \<in> set (controls (this w)). \<not> strict_prefix p q) \<and>
     (\<forall>a \<in> set (querySelectorAll (ById ''slide-announcement'') (doc w)). \<not> strict_prefix a q)"

definition deck_ok :: "world \<Rightarrow> bool" where
  "deck_ok w \<longleftrightarrow>
     (\<forall>s \<in> set (slides (this w)). elem_at (doc w) s \<noteq> None \<and> clear_at w s) \<and>
     (\<forall>q \<in> set (paths_of (doc w)). marked (doc w) q \<longrightarrow> clear_at w q)"

definition active_ok :: "world \<Rightarrow> bool" where
  "active_ok w \<longleftrightarrow>
     (\<forall>s \<in> set (slides (this w)).
        is_active (doc w) s \<longleftrightarrow> slide_for (currentSlide (this w)) (doc w) = Some s)"

text \<open>
  The slides are numbered when no slide occurs twice in the list of the
  constructor and the selector of every position finds one of them.
\<close>

definition numbered :: "world \<Rightarrow> bool" where
  "numbered w \<longleftrightarrow>
     distinct (slides (this w)) \<and>
     (\<forall>k \<in> set [1..deck_size w]. \<exists>s \<in> set (slides (this w)). slide_for (num k) (doc w) = Some s)"

definition deck_shown :: "world \<Rightarrow> bool" where
  "deck_shown w \<longleftrightarrow> deck_ok w \<and> active_ok w \<and> numbered w"

lemma deck_shownD: "deck_shown w \<Longrightarrow> deck_ok w"
  by (simp add: deck_shown_def)

lemma clear_atD:
  assumes "clear_at w q"
  shows "p \<in> set (controls (this w)) \<Longrightarrow> \<not> strict_prefix p q"
    and "elem_at (doc w) a = Some e \<Longrightarrow> elem_id e = ''slide-announcement'' \<Longrightarrow> \<not> strict_prefix a q"
  using assms by (auto simp: clear_at_def)

lemma deck_okD:
  assumes "deck_ok w"
  shows "s \<in> set (slides (this w)) \<Longrightarrow> elem_at (doc w) s \<noteq> None"
    and "s \<in> set (slides (this w)) \<Longrightarrow> clear_at w s"
    and "marked (doc w) q \<Longrightarrow> clear_at w q"
  using assms has_attr_elem [of "''data-slide''" "doc w" q, folded in_paths_of]
  by (auto simp: deck_ok_def)

lemma marked_keeps: "keeps attrs d d' \<Longrightarrow> has_attr a d' q \<Longrightarrow> has_attr a d q"
  by (auto simp: has_attr_def getAttribute_def split: option.splits dest!: keepsD)

lemma is_active_cong:
  "map_option classList (elem_at d' s) = map_option classList (elem_at d s) \<Longrightarrow>
     is_active d' s = is_active d s"
  by (cases "elem_at d' s"; cases "elem_at d s") (auto simp: is_active_def)

section \<open>Moving the mark\<close>

lemma doc_mark_active:
  "doc (mark_active n w) =
     (case slide_for n (doc w) of
        Some p \<Rightarrow> upd_elem p (classList_add ''active'')
                   (fold (\<lambda>p. upd_elem p (classList_remove [''active'', ''prev''])) (slides (this w)) (doc w))
      | None \<Rightarrow> fold (\<lambda>p. upd_elem p (classList_remove [''active'', ''prev''])) (slides (this w)) (doc w))"
proof -
  let ?d1 = "fold (\<lambda>p. upd_elem p (classList_remove [''active'', ''prev''])) (slides (this w)) (doc w)"
  have "querySelector (ByAttr ''data-slide'' (Number_toString n)) ?d1 = slide_for n (doc w)"
    unfolding slide_for_def
    by (rule querySelector_ByAttr_cong)
      (simp_all add: elem_at_fold_upd_elem option.map_comp comp_def)
  then show ?thesis by (simp add: mark_active_def Let_def split: option.splits)
qed

lemma is_active_mark_active:
  assumes "s \<in> set (slides (this w))" "elem_at (doc w) s \<noteq> None"
  shows "is_active (doc (mark_active n w)) s \<longleftrightarrow> slide_for n (doc w) = Some s"
  using assms
  by (auto simp: doc_mark_active is_active_def elem_at_upd_elem elem_at_fold_upd_elem
      split: option.splits)

lemma elem_at_mark_active_None [simp]:
  "elem_at (doc (mark_active n w)) q = None \<longleftrightarrow> elem_at (doc w) q = None"
  by (simp add: doc_mark_active elem_at_upd_elem elem_at_fold_upd_elem split: option.splits)

lemma keeps_mark_active [intro]:
  assumes "\<And>c e. f (classList_add c e) = f e" "\<And>cs e. f (classList_remove cs e) = f e"
  shows "keeps f (doc w) (doc (mark_active n w))"
  using assms
  by (auto simp: keeps_def doc_mark_active elem_at_upd_elem elem_at_fold_upd_elem
      split: option.splits if_splits)

lemma slide_for_mark_active [simp]: "slide_for v (doc (mark_active n w)) = slide_for v (doc w)"
  unfolding slide_for_def
  by (rule querySelector_ByAttr_cong)
    (simp_all add: doc_mark_active elem_at_upd_elem elem_at_fold_upd_elem option.map_comp comp_def
      split: option.splits)

section \<open>The refresh leaves the classes and the attributes alone\<close>

lemma kept_upd_elem:
  "(\<And>e. f (g e) = f e) \<Longrightarrow>
     map_option f (elem_at (upd_elem p g d) s) = map_option f (elem_at d s)"
  by (simp add: elem_at_upd_elem option.map_comp comp_def)

lemma classList_set_width_percent [simp]: "classList (set_width_percent n e) = classList e"
  by (cases n) simp_all

lemma kept_update_display:
  assumes "untouched f" "\<And>p. p \<in> set (controls (this w)) \<Longrightarrow> \<not> strict_prefix p s"
  shows "map_option f (elem_at (doc (update_display w)) s) = map_option f (elem_at (doc w) s)"
proof -
  have "\<not> strict_prefix p s"
    if "prevBtn (this w) = Some p \<or> nextBtn (this w) = Some p \<or> currentSlideSpan (this w) = Some p"
    for p using that assms(2) by (auto simp: in_controls)
  then show ?thesis
    using assms(1)
    by (auto simp: update_display_def updateSlideDisplay_def updateProgressBar_def
        updateNavButtons_def set_button_def Let_def kept_upd_elem elem_at_set_textContent
        split: option.splits)
qed

lemma live_region_not_above:
  assumes "elem_at d s \<noteq> None"
    "\<And>a e. elem_at d a = Some e \<Longrightarrow> elem_id e = ''slide-announcement'' \<Longrightarrow> \<not> strict_prefix a s"
  shows "\<not> strict_prefix (snd (live_region d)) s"
    and "elem_at (fst (live_region d)) s = elem_at d s"
proof -
  show "\<not> strict_prefix (snd (live_region d)) s"
  proof (cases "getElementById ''slide-announcement'' d")
    case None
    show ?thesis
    proof (cases "s = []")
      case False
      from parallel_fresh_child [OF assms(1) False, of "[]"] None show ?thesis
        by (simp add: live_region_def parallel_not_strict_prefix)
    qed simp
  next
    case (Some a)
    with assms(2) show ?thesis by (auto simp: live_region_def dest: getElementById_Some)
  qed
  from assms(1) show "elem_at (fst (live_region d)) s = elem_at d s"
    by (simp add: live_region_def elem_at_appendChild_keep split: option.splits)
qed

lemma elem_at_announceSlideChange:
  assumes "elem_at (doc w) s \<noteq> None" "clear_at w s"
  shows "elem_at (doc (announceSlideChange w)) s = elem_at (doc w) s"
  using live_region_not_above [of "doc w" s, OF assms(1) clear_atD(2) [OF assms(2)]]
  by (simp add: announceSlideChange_live elem_at_set_textContent)

lemma kept_refresh_display:
  assumes "untouched f" "elem_at (doc w) s \<noteq> None" "clear_at w s"
  shows "map_option f (elem_at (doc (refresh_display w)) s) = map_option f (elem_at (doc w) s)"
proof -
  let ?u = "update_display w"
  have c: "map_option f (elem_at (doc ?u) s) = map_option f (elem_at (doc w) s)"
    using assms(1) clear_atD(1) [OF assms(3)] by (rule kept_update_display)
  with assms(2) have "elem_at (doc ?u) s \<noteq> None" by (cases "elem_at (doc ?u) s") auto
  moreover have "clear_at ?u s"
    using assms(3) keepsD [OF keeps_update_display [of elem_id w]]
    by (fastforce simp: clear_at_def)
  ultimately have "elem_at (doc (refresh_display w)) s = elem_at (doc ?u) s"
    unfolding refresh_display_def by (rule elem_at_announceSlideChange)
  with c show ?thesis by simp
qed

lemma is_active_refresh_display:
  "elem_at (doc w) s \<noteq> None \<Longrightarrow> clear_at w s \<Longrightarrow>
     is_active (doc (refresh_display w)) s = is_active (doc w) s"
  by (rule is_active_cong) (simp add: kept_refresh_display)

section \<open>The deck stays in place\<close>

lemma not_prefix_fresh_child: "elem_at d s \<noteq> None \<Longrightarrow> \<not> strict_prefix (child_count d # r) s"
  using parallel_fresh_child [of d s r] by (cases "s = []") (auto simp: parallel_not_strict_prefix)

text \<open>
  A step keeps the deck when the slides are still there, no element has got
  the attribute \<open>data-slide\<close>, and every element with the \<open>id\<close> of the live
  region was there before or is a new last child of the body.
\<close>

lemma clear_at_step:
  assumes "clear_at w q" "elem_at (doc w) q \<noteq> None" "controls (this w') = controls (this w)"
    "\<And>a e. elem_at (doc w') a = Some e \<Longrightarrow> elem_id e = ''slide-announcement'' \<Longrightarrow>
       (\<exists>e'. elem_at (doc w) a = Some e' \<and> elem_id e' = ''slide-announcement'') \<or>
       (\<exists>r. a = child_count (doc w) # r)"
  shows "clear_at w' q"
proof -
  have "\<not> strict_prefix a q"
    if "elem_at (doc w') a = Some e" "elem_id e = ''slide-announcement''" for a e
    using assms(4) [OF that] clear_atD(2) [OF assms(1)] assms(2)
    by (auto simp: not_prefix_fresh_child)
  with assms(1,3) show ?thesis by (auto simp: clear_at_def)
qed

lemma clear_at_keeps:
  assumes "clear_at w q" "elem_at (doc w) q \<noteq> None" "controls (this w') = controls (this w)"
    "keeps_ids (doc w) (doc w')"
  shows "clear_at w' q"
  using assms(1-3)
proof (rule clear_at_step)
  fix a e
  assume "elem_at (doc w') a = Some e" "elem_id e = ''slide-announcement''"
  with assms(4) show "(\<exists>e'. elem_at (doc w) a = Some e' \<and> elem_id e' = ''slide-announcement'') \<or>
    (\<exists>r. a = child_count (doc w) # r)"
    unfolding keeps_def by metis
qed

lemma deck_ok_step:
  assumes "deck_ok w" "slides (this w') = slides (this w)" "controls (this w') = controls (this w)"
    "\<And>s. s \<in> set (slides (this w)) \<Longrightarrow> elem_at (doc w') s \<noteq> None"
    "\<And>q. marked (doc w') q \<Longrightarrow> marked (doc w) q"
    "\<And>a e. elem_at (doc w') a = Some e \<Longrightarrow> elem_id e = ''slide-announcement'' \<Longrightarrow>
       (\<exists>e'. elem_at (doc w) a = Some e' \<and> elem_id e' = ''slide-announcement'') \<or>
       (\<exists>r. a = child_count (doc w) # r)"
  shows "deck_ok w'"
proof -
  have keep: "clear_at w' q" if "clear_at w q" "elem_at (doc w) q \<noteq> None" for q
    using that assms(3,6) by (rule clear_at_step)
  have "clear_at w' q" if "marked (doc w') q" for q
    using assms(5) [OF that] deck_okD(3) [OF assms(1)] has_attr_elem keep by blast
  moreover have "clear_at w' s" if "s \<in> set (slides (this w))" for s
    using deck_okD(1,2) [OF assms(1) that] by (simp add: keep)
  ultimately show ?thesis using assms(2,4) by (simp add: deck_ok_def)
qed

lemma deck_ok_keeps:
  assumes "deck_ok w" "slides (this w') = slides (this w)" "controls (this w') = controls (this w)"
    "\<And>s. s \<in> set (slides (this w)) \<Longrightarrow> elem_at (doc w') s \<noteq> None"
    "keeps_ids (doc w) (doc w')" "keeps attrs (doc w) (doc w')"
  shows "deck_ok w'"
proof (rule deck_ok_step [OF assms(1-3)])
  fix a e
  assume "elem_at (doc w') a = Some e" "elem_id e = ''slide-announcement''"
  with assms(5) show "(\<exists>e'. elem_at (doc w) a = Some e' \<and> elem_id e' = ''slide-announcement'') \<or>
    (\<exists>r. a = child_count (doc w) # r)"
    unfolding keeps_def by metis
qed (simp_all add: assms(4) marked_keeps [OF assms(6)])

lemma deck_ok_mark_active [wf_keep]: "deck_ok w \<Longrightarrow> deck_ok (mark_active n w)"
  by (rule deck_ok_keeps [of w]) (auto dest: deck_okD(1))

lemma deck_ok_update_display [wf_keep]:
  assumes "deck_ok w"
  shows "deck_ok (update_display w)"
proof (rule deck_ok_keeps [OF assms])
  fix s
  assume s: "s \<in> set (slides (this w))"
  from kept_update_display [of elem_id w s] deck_okD(1) [OF assms s] clear_atD(1) [OF deck_okD(2) [OF assms s]]
  show "elem_at (doc (update_display w)) s \<noteq> None"
    by (cases "elem_at (doc (update_display w)) s") auto
qed auto

lemma announcement_div_unmarked: "\<not> marked announcement_div r"
  by (cases r)
    (simp_all add: has_attr_def elem_of_announcement_div announcement_div_def createElement_def
      elem_at_def getAttribute_def setAttribute_def)

lemma marked_live_region: "marked (fst (live_region d)) q \<Longrightarrow> marked d q"
  by (auto simp: live_region_def announcement_div_unmarked split: option.splits
      dest: has_attr_appendChild [rotated])

lemma live_after_announceSlideChange:
  assumes "elem_at (doc (announceSlideChange w)) a = Some e"
  shows "(\<exists>e'. elem_at (doc w) a = Some e' \<and> elem_id e' = elem_id e) \<or>
         (\<exists>r. a = child_count (doc w) # r)"
proof -
  from assms obtain e1 where e1: "elem_at (fst (live_region (doc w))) a = Some e1" "elem_id e1 = elem_id e"
    using keeps_set_textContent [of elem_id "fst (live_region (doc w))"]
    unfolding announceSlideChange_live keeps_def by blast
  then show ?thesis
    by (cases a) (auto simp: live_region_def elem_at_appendChild split: option.splits if_splits)
qed

lemma deck_ok_announceSlideChange [wf_keep]:
  assumes "deck_ok w"
  shows "deck_ok (announceSlideChange w)"
proof (rule deck_ok_step [OF assms])
  fix s
  assume "s \<in> set (slides (this w))"
  from deck_okD(1,2) [OF assms this]
  show "elem_at (doc (announceSlideChange w)) s \<noteq> None"
    by (simp add: elem_at_announceSlideChange)
next
  fix a e
  assume "elem_at (doc (announceSlideChange w)) a = Some e" "elem_id e = ''slide-announcement''"
  with live_after_announceSlideChange [of w a e]
  show "(\<exists>e'. elem_at (doc w) a = Some e' \<and> elem_id e' = ''slide-announcement'') \<or>
    (\<exists>r. a = child_count (doc w) # r)" by auto
next
  fix q
  assume "marked (doc (announceSlideChange w)) q"
  then show "marked (doc w) q" by (simp add: announceSlideChange_live marked_live_region)
qed simp_all

lemma deck_ok_refresh_display [wf_keep]: "deck_ok w \<Longrightarrow> deck_ok (refresh_display w)"
  by (simp add: refresh_display_def wf_keep)

lemma deck_ok_goToSlide [wf_keep]: "deck_ok w \<Longrightarrow> deck_ok (goToSlide n w)"
  by (simp add: goToSlide_halves wf_keep)

section \<open>The selector of a slide finds the same element\<close>

text \<open>No element that carries the attribute lies inside the element at \<open>p\<close>.\<close>

definition marks_clear :: "path \<Rightarrow> node \<Rightarrow> bool" where
  "marks_clear p d \<longleftrightarrow> (\<forall>q. marked d q \<longrightarrow> \<not> strict_prefix p q)"

lemma marks_clear_upd_elem [simp]:
  "(\<And>e. attrs (g e) = attrs e) \<Longrightarrow> marks_clear p (upd_elem p' g d) = marks_clear p d"
  by (simp add: marks_clear_def)

lemma marks_clear_set_textContent [simp]:
  "marks_clear p d \<Longrightarrow> marks_clear p (set_textContent p' s d)"
  by (simp add: marks_clear_def)

lemma marks_clear_control:
  "deck_ok w \<Longrightarrow> p \<in> set (controls (this w)) \<Longrightarrow> marks_clear p (doc w)"
  by (auto simp: marks_clear_def dest: deck_okD(3) clear_atD(1))

lemma slide_for_upd_elem [simp]:
  "(\<And>e. attrs (g e) = attrs e) \<Longrightarrow> slide_for v (upd_elem p g d) = slide_for v d"
  by (simp add: slide_for_def)

lemma slide_for_set_textContent [simp]:
  "marks_clear p d \<Longrightarrow> slide_for v (set_textContent p s d) = slide_for v d"
  unfolding slide_for_def marks_clear_def by (rule querySelector_ByAttr_set_textContent) simp

lemma attrs_set_width_percent [simp]: "attrs (set_width_percent n e) = attrs e"
  by (cases n) simp_all

lemma slide_for_update_display:
  assumes "deck_ok w"
  shows "slide_for v (doc (update_display w)) = slide_for v (doc w)"
proof -
  have "marks_clear p (doc w)"
    if "prevBtn (this w) = Some p \<or> nextBtn (this w) = Some p \<or> currentSlideSpan (this w) = Some p"
    for p using that by (intro marks_clear_control assms) (auto simp: in_controls)
  then show ?thesis
    by (auto simp: update_display_def updateSlideDisplay_def updateProgressBar_def
        updateNavButtons_def set_button_def Let_def split: option.splits)
qed

lemma slide_for_announceSlideChange:
  assumes "deck_ok w"
  shows "slide_for v (doc (announceSlideChange w)) = slide_for v (doc w)"
proof -
  let ?r = "live_region (doc w)"
  have "\<not> strict_prefix (snd ?r) q" if "marked (fst ?r) q" for q
  proof -
    from that have q: "marked (doc w) q" by (rule marked_live_region)
    then show ?thesis
      using clear_atD(2) [OF deck_okD(3) [OF assms q]] has_attr_elem
      by (intro live_region_not_above(1)) blast+
  qed
  then have "slide_for v (doc (announceSlideChange w)) = slide_for v (fst ?r)"
    unfolding announceSlideChange_live by (simp add: marks_clear_def)
  also have "\<dots> = slide_for v (doc w)"
    by (simp add: live_region_def slide_for_def querySelector_ByAttr_appendChild
        announcement_div_unmarked split: option.splits)
  finally show ?thesis .
qed

lemma slide_for_refresh_display:
  "deck_ok w \<Longrightarrow> slide_for v (doc (refresh_display w)) = slide_for v (doc w)"
  by (simp add: refresh_display_def slide_for_announceSlideChange slide_for_update_display wf_keep)

lemma slide_for_goToSlide:
  "deck_ok w \<Longrightarrow> slide_for v (doc (goToSlide n w)) = slide_for v (doc w)"
  by (simp add: goToSlide_halves slide_for_refresh_display wf_keep)

section \<open>The active slide\<close>

lemma is_active_goToSlide:
  assumes "deck_ok w" "s \<in> set (slides (this w))"
    "\<not> (js_lt n (Fin 1) \<or> js_gt n (totalSlides (this w)))"
  shows "is_active (doc (goToSlide n w)) s \<longleftrightarrow> slide_for n (doc w) = Some s"
proof -
  let ?m = "mark_active n w"
  from assms(1) have "deck_ok ?m" by (rule deck_ok_mark_active)
  from deck_okD(1,2) [OF this, of s] assms(2)
  have "is_active (doc (refresh_display ?m)) s = is_active (doc ?m) s"
    by (intro is_active_refresh_display) simp_all
  with assms show ?thesis
    by (simp add: goToSlide_halves is_active_mark_active deck_okD(1))
qed

lemma active_ok_goToSlide:
  assumes "deck_ok w" "active_ok w"
  shows "active_ok (goToSlide n w)"
proof (cases "js_lt n (Fin 1) \<or> js_gt n (totalSlides (this w))")
  case False
  then show ?thesis
    using is_active_goToSlide [OF assms(1) _ False]
    by (simp add: active_ok_def this_goToSlide slide_for_goToSlide [OF assms(1)])
qed (use assms(2) in \<open>simp add: goToSlide_halves\<close>)

lemma numbered_cong:
  assumes "this w' = this w" "\<And>v. slide_for v (doc w') = slide_for v (doc w)"
  shows "numbered w' = numbered w"
  by (simp add: numbered_def assms)

lemma numbered_goToSlide: "deck_ok w \<Longrightarrow> numbered w \<Longrightarrow> numbered (goToSlide n w)"
  by (simp add: numbered_def this_goToSlide slide_for_goToSlide)

lemma deck_shown_goToSlide [wf_keep]: "deck_shown w \<Longrightarrow> deck_shown (goToSlide n w)"
  by (simp add: deck_shown_def deck_ok_goToSlide active_ok_goToSlide numbered_goToSlide)

lemma deck_shown_touch [simp]: "deck_shown (w\<lparr>touch := t\<rparr>) = deck_shown w"
  by (simp add: deck_shown_def deck_ok_def active_ok_def clear_at_def numbered_def)

text \<open>
  An update that is not a navigation keeps the active slide when it keeps the
  object, gives no element a new \<open>id\<close> or attribute, and leaves alone the
  classes of every element that is clear of the controls.
\<close>

lemma deck_shown_quiet:
  assumes "deck_shown w" "this w' = this w"
    "keeps_ids (doc w) (doc w')" "keeps attrs (doc w) (doc w')"
    "\<And>q. elem_at (doc w) q \<noteq> None \<Longrightarrow> clear_at w q \<Longrightarrow>
       elem_at (doc w') q \<noteq> None \<and> is_active (doc w') q = is_active (doc w) q"
    "\<And>v. slide_for v (doc w') = slide_for v (doc w)"
  shows "deck_shown w'"
proof -
  from assms(1) have w: "deck_ok w" "active_ok w" "numbered w" by (simp_all add: deck_shown_def)
  note s = deck_okD(1,2) [OF w(1)]
  have "deck_ok w'"
    using w(1) _ _ _ assms(3,4) by (rule deck_ok_keeps) (simp_all add: assms(2,5) s controls_def)
  moreover have "active_ok w'"
    using w(2) by (simp add: active_ok_def assms(2,5,6) s)
  ultimately show ?thesis
    using w(3) by (simp add: deck_shown_def numbered_cong [OF assms(2,6)])
qed

lemma deck_shown_set_text:
  assumes "deck_shown w" "p \<in> set (controls (this w))" "this w' = this w"
    "doc w' = set_textContent p s (doc w)"
  shows "deck_shown w'"
  using assms(1,3)
proof (rule deck_shown_quiet)
  from assms(1) have d: "deck_ok w" by (simp add: deck_shown_def)
  show "slide_for v (doc w') = slide_for v (doc w)" for v
    by (simp add: assms(4) marks_clear_control [OF d assms(2)])
  show "elem_at (doc w') q \<noteq> None \<and> is_active (doc w') q = is_active (doc w) q"
    if "elem_at (doc w) q \<noteq> None" "clear_at w q" for q
    using that clear_atD(1) [OF that(2) assms(2)]
    by (simp add: assms(4) is_active_def elem_at_set_textContent)
qed (simp_all add: assms(4) keeps_set_textContent)

lemma deck_shown_updateSlideDisplay [wf_keep]:
  assumes "deck_shown w"
  shows "deck_shown (updateSlideDisplay w)"
proof (cases "currentSlideSpan (this w)")
  case (Some p)
  from assms show ?thesis
    by (rule deck_shown_set_text [where p = p]) (simp_all add: Some in_controls updateSlideDisplay_def)
qed (use assms in \<open>simp add: updateSlideDisplay_def\<close>)

lemma deck_shown_update_display [wf_keep]:
  assumes "deck_shown w"
  shows "deck_shown (update_display w)"
  using assms
proof (rule deck_shown_quiet)
  from assms have d: "deck_ok w" by (simp add: deck_shown_def)
  show "slide_for v (doc (update_display w)) = slide_for v (doc w)" for v
    using d by (rule slide_for_update_display)
  show "elem_at (doc (update_display w)) q \<noteq> None \<and>
      is_active (doc (update_display w)) q = is_active (doc w) q"
    if "elem_at (doc w) q \<noteq> None" "clear_at w q" for q
  proof -
    have "map_option classList (elem_at (doc (update_display w)) q) =
        map_option classList (elem_at (doc w) q)"
      using clear_atD(1) [OF that(2)] by (intro kept_update_display) simp_all
    with that(1) is_active_cong [OF this] show ?thesis
      by (cases "elem_at (doc (update_display w)) q") auto
  qed
qed (simp_all add: keeps_update_display)

lemma deck_shown_init [wf_keep]:
  assumes "deck_shown w"
  shows "deck_shown (init w)"
proof (cases "totalSlidesSpan (this w)")
  case (Some p)
  from assms have "deck_shown (update_display w)" by (rule deck_shown_update_display)
  then show ?thesis
    by (rule deck_shown_set_text [where p = p]) (simp_all add: in_controls Some doc_init)
next
  case None
  from assms have "deck_shown (update_display w)" by (rule deck_shown_update_display)
  then show ?thesis
    by (rule deck_shown_quiet) (simp_all add: doc_init None)
qed

lemma slide_for_init:
  assumes "deck_ok w"
  shows "slide_for v (doc (init w)) = slide_for v (doc w)"
proof -
  from assms have "deck_ok (update_display w)" by (rule deck_ok_update_display)
  from marks_clear_control [OF this] show ?thesis
    by (simp add: doc_init in_controls slide_for_update_display [OF assms] split: option.splits)
qed

lemma deck_shown_body_class [wf_keep]:
  assumes "deck_shown w" "c \<noteq> ''active''"
  shows "deck_shown (w\<lparr>doc := upd_elem [] (classList_add c) (doc w)\<rparr>)"
  using assms(1)
  by (rule deck_shown_quiet)
    (auto simp: is_active_def elem_at_upd_elem assms(2) [symmetric] split: option.splits)

text \<open>The markup shows its deck when the object that the constructor builds on it does.\<close>

definition markup_deck :: "node \<Rightarrow> bool" where
  "markup_deck d \<longleftrightarrow>
     deck_shown \<lparr>this = new_object d, doc = d, listeners = [],
                 touch = \<lparr>startX = Fin 0, startY = Fin 0, endX = Fin 0, endY = Fin 0\<rparr>\<rparr>"

lemma deck_shown_new_Presentation: "markup_deck d \<Longrightarrow> deck_shown (new_Presentation d ls)"
  unfolding new_Presentation_def markup_deck_def
  by (rule deck_shown_init, erule deck_shown_quiet) simp_all

lemma slide_for_new_Presentation:
  assumes "markup_deck d"
  shows "slide_for v (doc (new_Presentation d ls)) = slide_for v d"
proof -
  from assms have "deck_ok \<lparr>this = new_object d, doc = d, listeners = ls,
      touch = \<lparr>startX = Fin 0, startY = Fin 0, endX = Fin 0, endY = Fin 0\<rparr>\<rparr>"
    by (simp add: markup_deck_def deck_shown_def deck_ok_def clear_at_def)
  from slide_for_init [OF this] show ?thesis by (simp add: new_Presentation_def)
qed

section \<open>Events keep the active slide\<close>

lemma deck_shown_dispatch [wf_keep]:
  "deck_shown w \<Longrightarrow> position_ok w \<Longrightarrow> deck_shown (fst (dispatch t ev w))"
  by (rule dispatch_preserves [where I = deck_shown, rotated 2]) (simp_all add: deck_shown_goToSlide)

lemma deck_shown_navigation [wf_keep]:
  assumes "deck_shown w" "position_ok w"
  shows "deck_shown (nextSlide w)" "deck_shown (previousSlide w)"
  using navigation_preserves(1,2) [where I = deck_shown, OF _ assms]
  by (simp_all add: deck_shown_goToSlide)

text \<open>What a run of events keeps: the deck, and the element each selector finds.\<close>

lemma deck_kept_run_events:
  assumes "deck_shown w" "position_ok w"
  shows "deck_shown (run_events evs w) \<and> (\<forall>v. slide_for v (doc (run_events evs w)) = slide_for v (doc w))"
  using assms unfolding run_events_def
proof (induction evs arbitrary: w)
  case (Cons a evs)
  obtain t ev where a: "a = (t, ev)" by (cases a)
  let ?I = "\<lambda>w'. deck_shown w' \<and> (\<forall>v. slide_for v (doc w') = slide_for v (doc w))"
  let ?w = "fst (dispatch t ev w)"
  from Cons.prems(1) have "?I w" by simp
  from this Cons.prems(2) have "?I ?w"
    by (rule dispatch_preserves [where I = ?I, rotated 2])
      (simp_all add: deck_shown_goToSlide slide_for_goToSlide deck_shownD)
  with Cons.IH [of ?w] Cons.prems(2) show ?case by (simp add: a position_ok_dispatch)
qed simp

lemma one_active:
  assumes "deck_shown w" "position_ok w"
  shows "\<exists>s. slide_for (currentSlide (this w)) (doc w) = Some s \<and>
             filter (is_active (doc w)) (slides (this w)) = [s]"
proof -
  from assms(2) obtain k n where kn: "currentSlide (this w) = num k" "totalSlides (this w) = num n"
    "1 \<le> k" "k \<le> n" by (rule position_okE)
  from assms(1) have w: "active_ok w" "numbered w" by (simp_all add: deck_shown_def)
  from w(2) kn have "\<exists>s \<in> set (slides (this w)). slide_for (num k) (doc w) = Some s"
    by (simp add: numbered_def)
  then obtain s where s: "s \<in> set (slides (this w))" "slide_for (num k) (doc w) = Some s" by blast
  have "filter (is_active (doc w)) (slides (this w)) = filter (\<lambda>y. y = s) (slides (this w))"
    by (rule filter_cong_set) (use w(1) s(2) kn(1) in \<open>auto simp: active_ok_def\<close>)
  also have "\<dots> = [s]" using w(2) s(1) by (simp add: numbered_def filter_eq_distinct)
  finally show ?thesis using s(2) kn(1) by simp
qed

section \<open>The sample page shows its deck\<close>

lemma sample_markup_slides:
  "querySelectorAll (ByClass ''slide'') sample_page = map (\<lambda>i. [0, i]) [0..<10]"
  by code_simp

lemma sample_markup_marks:
  "filter (marked sample_page) (paths_of sample_page) = map (\<lambda>i. [0, i]) [0..<10]"
  by code_simp

lemma sample_markup_active:
  "list_all (\<lambda>s. is_active sample_page s = (s = [0, 0]) \<and> elem_at sample_page s \<noteq> None)
     (map (\<lambda>i. [0, i]) [0..<10])"
  by code_simp

lemma sample_markup_numbers:
  "list_all (\<lambda>k. slide_for (num k) sample_page = Some [0, nat (k - 1)]) [1..10]"
  by code_simp

lemma slides_new_object [simp]: "slides (new_object d) = querySelectorAll (ByClass ''slide'') d"
  by (simp add: new_object_def)

lemma sample_markup_deck: "markup_deck sample_page"
proof -
  let ?w = "\<lparr>this = new_object sample_page, doc = sample_page, listeners = [],
    touch = \<lparr>startX = Fin 0, startY = Fin 0, endX = Fin 0, endY = Fin 0\<rparr>\<rparr>"
  note ev = sample_markup_active [unfolded list_all_iff] sample_markup_numbers [unfolded list_all_iff]
  have clear: "clear_at ?w [0, i]" for i
    by (simp add: clear_at_def sample_markup_controls sample_markup_live del: in_querySelectorAll)
  have "\<forall>q \<in> set (filter (marked sample_page) (paths_of sample_page)). clear_at ?w q"
    unfolding sample_markup_marks using clear by auto
  with ev(1) clear have "deck_ok ?w"
    by (auto simp: deck_ok_def sample_markup_slides simp del: in_querySelectorAll in_paths_of)
  moreover have "slide_for (Fin 1) sample_page = Some [0, 0]"
    using ev(2) [THEN bspec, of 1] by simp
  with ev(1) have "active_ok ?w"
    by (auto simp: active_ok_def sample_markup_slides simp del: in_querySelectorAll)
  moreover from ev(2) have "numbered ?w"
    by (auto simp: numbered_def sample_markup_slides distinct_map inj_on_def
        simp del: in_querySelectorAll)
  ultimately show ?thesis by (simp add: markup_deck_def deck_shown_def)
qed

section \<open>The deck of a markup\<close>

text \<open>
  A state shows the deck of the markup \<open>d\<close> when it shows its deck, its
  slides are the elements of class \<open>slide\<close> of \<open>d\<close>, and the selector of
  every position finds in its document the element it finds in \<open>d\<close>.
\<close>

definition deck_of :: "node \<Rightarrow> world \<Rightarrow> bool" where
  "deck_of d w \<longleftrightarrow>
     deck_shown w \<and> slides (this w) = querySelectorAll (ByClass ''slide'') d \<and>
     (\<forall>k \<in> set [1..deck_size w]. slide_for (num k) (doc w) = slide_for (num k) d)"

lemma deck_of_step:
  assumes "deck_of d w" "deck_shown w \<Longrightarrow> deck_shown w'" "slides (this w') = slides (this w)"
    "totalSlides (this w') = totalSlides (this w)"
    "\<And>v. deck_ok w \<Longrightarrow> slide_for v (doc w') = slide_for v (doc w)"
  shows "deck_of d w'"
  using assms by (simp add: deck_of_def deck_shownD)

lemma slide_for_updateSlideDisplay:
  "deck_ok w \<Longrightarrow> slide_for v (doc (updateSlideDisplay w)) = slide_for v (doc w)"
  using marks_clear_control [of w]
  by (simp add: updateSlideDisplay_def in_controls split: option.splits)

lemma deck_of_goToSlide [wf_keep]: "deck_of d w \<Longrightarrow> deck_of d (goToSlide n w)"
  by (erule deck_of_step)
    (simp_all add: deck_shown_goToSlide slide_for_goToSlide this_goToSlide)

lemma deck_of_touch [simp]: "deck_of d (w\<lparr>touch := t\<rparr>) = deck_of d w"
  by (simp add: deck_of_def)

lemma deck_of_updateSlideDisplay [wf_keep]: "deck_of d w \<Longrightarrow> deck_of d (updateSlideDisplay w)"
  by (erule deck_of_step)
    (simp_all add: deck_shown_updateSlideDisplay slide_for_updateSlideDisplay)

lemma deck_of_body_class [wf_keep]:
  "deck_of d w \<Longrightarrow> c \<noteq> ''active'' \<Longrightarrow>
     deck_of d (w\<lparr>doc := upd_elem [] (classList_add c) (doc w)\<rparr>)"
  by (erule deck_of_step) (simp_all add: deck_shown_body_class)

lemma deck_of_new_Presentation: "markup_deck d \<Longrightarrow> deck_of d (new_Presentation d ls)"
  by (simp add: deck_of_def deck_shown_new_Presentation slide_for_new_Presentation)

lemma deck_of_one_active:
  assumes "deck_of d w" "position_ok w"
  shows "\<exists>s. slide_for (currentSlide (this w)) d = Some s \<and>
             filter (is_active (doc w)) (querySelectorAll (ByClass ''slide'') d) = [s]"
proof -
  from assms(2) obtain k n where "currentSlide (this w) = num k" "totalSlides (this w) = num n"
    "1 \<le> k" "k \<le> n" by (rule position_okE)
  with assms(1) have "slide_for (currentSlide (this w)) (doc w) = slide_for (currentSlide (this w)) d"
    by (simp add: deck_of_def)
  with one_active [OF _ assms(2)] assms(1) show ?thesis by (simp add: deck_of_def)
qed

section \<open>Properties of the deck\<close>

text \<open>
  C10 (functional). On a page where no slide and no numbered element lies
  inside a control or the live region, after a navigation to a slide in range
  the slides that carry the class \<open>active\<close> are exactly those that the
  selector for the new position finds first: one slide when the markup
  numbers its slides, none when no element carries the number.
\<close>

theorem active_slide_follows_position:
  assumes "deck_ok w" "position_ok w" "1 \<le> k" "k \<le> deck_size w"
  shows "filter (is_active (doc (goToSlide (num k) w))) (slides (this w)) =
         filter (\<lambda>s. slide_for (num k) (doc w) = Some s) (slides (this w)) \<and>
         deck_ok (goToSlide (num k) w)"
proof -
  from assms(2) obtain n where n: "totalSlides (this w) = num n" by (auto elim: position_okE)
  with assms(3,4) have "\<not> (js_lt (num k) (Fin 1) \<or> js_gt (num k) (totalSlides (this w)))" by simp
  from is_active_goToSlide [OF assms(1) _ this] show ?thesis
    using assms(1) by (auto simp: deck_ok_goToSlide intro: filter_cong_set)
qed

theorem active_slide_follows_position_witness:
  "filter (is_active (doc (goToSlide (num 10) (new_Presentation sample_page []))))
     (slides (this (new_Presentation sample_page []))) = [[0, 9]]"
proof -
  note d = deck_shown_new_Presentation [OF sample_markup_deck, of "[]"]
  have "slide_for (num 10) (doc (new_Presentation sample_page [])) = Some [0, 9]"
    using sample_markup_numbers [unfolded list_all_iff, THEN bspec, of 10]
    by (simp add: slide_for_new_Presentation [OF sample_markup_deck])
  with active_slide_follows_position [of "new_Presentation sample_page []" 10] d show ?thesis
    by (simp add: deck_shown_def position_ok_new_Presentation sample_markup_slides
        filter_eq_distinct distinct_map inj_on_def eq_commute [of "[0, 9]"] del: in_querySelectorAll)
qed

text \<open>
  C9 (invariant). On a page that shows its deck, whatever clicks, keys and
  touches arrive: exactly one slide carries the class \<open>active\<close>, and it is the
  element that the markup numbers with the position reached.
\<close>

theorem one_slide_stays_active:
  assumes "deck_shown w" "position_ok w"
  shows "deck_shown (run_events evs w) \<and>
    (\<exists>s. slide_for (currentSlide (this (run_events evs w))) (doc w) = Some s \<and>
         filter (is_active (doc (run_events evs w))) (slides (this w)) = [s])"
proof -
  let ?w = "run_events evs w"
  note k = deck_kept_run_events [OF assms, of evs]
  from assms(2) have "position_ok ?w" by (rule position_ok_run_events)
  moreover have "same_object w ?w"
    using assms(2) by (intro same_object_run_events) simp_all
  ultimately show ?thesis
    using k one_active [of ?w] by (simp add: same_object_fields)
qed

theorem one_slide_stays_active_witness:
  "\<exists>s. slide_for (currentSlide (this (run_events [(Document, Key ''End''), (Element [2], Click)]
            (new_Presentation sample_page [])))) sample_page = Some s \<and>
       filter (is_active (doc (run_events [(Document, Key ''End''), (Element [2], Click)]
            (new_Presentation sample_page [])))) (map (\<lambda>i. [0, i]) [0..<10]) = [s]"
  using one_slide_stays_active [of "new_Presentation sample_page []"
      "[(Document, Key ''End''), (Element [2], Click)]"]
    deck_shown_new_Presentation [OF sample_markup_deck, of "[]"]
  by (simp add: position_ok_new_Presentation slide_for_new_Presentation [OF sample_markup_deck]
      sample_markup_slides del: in_querySelectorAll)

text \<open>
  C33 (safety). The constructor does not place the mark: \<open>init\<close> refreshes the
  counter, the bar and the buttons and leaves the classes of the slides as
  the markup has them. The slide of position 1 is active after construction
  only if the markup marks it; on a markup that marks no slide, none is
  active until the first navigation.
\<close>

theorem constructor_leaves_marks:
  assumes "\<forall>s \<in> set (querySelectorAll (ByClass ''slide'') d).
             \<forall>p \<in> set (controls (new_object d)). \<not> strict_prefix p s"
  shows "filter (is_active (doc (new_Presentation d ls))) (slides (this (new_Presentation d ls))) =
         filter (is_active d) (querySelectorAll (ByClass ''slide'') d)"
proof -
  let ?w = "\<lparr>this = new_object d, doc = d, listeners = ls,
    touch = \<lparr>startX = Fin 0, startY = Fin 0, endX = Fin 0, endY = Fin 0\<rparr>\<rparr>"
  have "is_active (doc (init ?w)) s = is_active d s" if "s \<in> set (querySelectorAll (ByClass ''slide'') d)" for s
  proof -
    from that have e: "elem_at d s \<noteq> None" by (auto split: option.splits)
    note c = assms [rule_format, OF that]
    have "map_option classList (elem_at (doc (update_display ?w)) s) = map_option classList (elem_at d s)"
      using c kept_update_display [of classList ?w s] by simp
    with c have "map_option classList (elem_at (doc (init ?w)) s) = map_option classList (elem_at d s)"
      by (simp add: doc_init elem_at_set_textContent in_controls split: option.splits)
    then show ?thesis by (rule is_active_cong)
  qed
  then show ?thesis
    by (simp add: new_Presentation_def del: in_querySelectorAll cong: filter_cong)
qed

theorem constructor_leaves_marks_witness:
  "filter (is_active (doc (new_Presentation sample_page [])))
     (slides (this (new_Presentation sample_page []))) =
   filter (is_active sample_page) (querySelectorAll (ByClass ''slide'') sample_page)"
  using constructor_leaves_marks [of sample_page "[]"]
  by (simp add: sample_markup_slides sample_markup_controls del: in_querySelectorAll)

end
