(* ===== verification/References.thy ===== *)
theory References
  imports Slides
begin

text \<open>
  The element references that the constructor stores in the object. Each was
  found by a selector: a control by its \<open>id\<close>, a slide by the class \<open>slide\<close>.
  The theory shows that the references stay typed: in every state that the
  methods reach, each reference still designates an element of the document
  and the element still matches the selector it was found by.
\<close>

section \<open>Typed references\<close>

definition ref_ok :: "node \<Rightarrow> string \<Rightarrow> path option \<Rightarrow> bool" where
  "ref_ok d i r = (case r of None \<Rightarrow> True | Some p \<Rightarrow> matches d (ById i) p)"

definition refs_ok :: "world \<Rightarrow> bool" where
  "refs_ok w \<longleftrightarrow>
     (let t = this w; d = doc w in
        ref_ok d ''prevBtn'' (prevBtn t) \<and> ref_ok d ''nextBtn'' (nextBtn t) \<and>
        ref_ok d ''currentSlide'' (currentSlideSpan t) \<and>
        ref_ok d ''totalSlides'' (totalSlidesSpan t) \<and>
        ref_ok d ''progressFill'' (progressFill t) \<and>
        list_all (matches d (ByClass ''slide'')) (slides t))"

text \<open>What the two selectors see of an element.\<close>

definition kind_of :: "element \<Rightarrow> string \<times> bool" where
  "kind_of e = (elem_id e, ''slide'' \<in> set (classList e))"

lemma matches_kind_of:
  "matches d (ById i) p = (case map_option kind_of (elem_at d p) of
                             Some k \<Rightarrow> i \<noteq> [] \<and> fst k = i | None \<Rightarrow> False)"
  "matches d (ByClass ''slide'') p = (case map_option kind_of (elem_at d p) of
                                        Some k \<Rightarrow> snd k | None \<Rightarrow> False)"
  by (simp_all add: kind_of_def split: option.splits)

lemma kind_of_updates [simp]:
  "untouched kind_of" "kind_of (classList_add ''active'' e) = kind_of e"
  "kind_of (classList_add ''loaded'' e) = kind_of e"
  "kind_of (classList_remove [''active'', ''prev''] e) = kind_of e"
  by (simp_all add: kind_of_def untouched_def)

text \<open>What the constructor finds matches the selector it was found by.\<close>

lemma querySelector_matches: "querySelector s d = Some p \<Longrightarrow> matches d s p"
  by (auto simp: querySelector_def dest: find_Some_in_set)

lemma refs_ok_new_object:
  "this w = new_object (doc w) \<Longrightarrow> refs_ok w"
  by (auto simp: refs_ok_def ref_ok_def new_object_def Let_def getElementById_def list_all_iff
      querySelectorAll_def querySelector_matches simp del: matches.simps split: option.splits)

text \<open>
  A reference is anchored when the element is there and no update of a text
  can remove it.
\<close>

definition anchored :: "world \<Rightarrow> bool" where
  "anchored w \<longleftrightarrow>
     (\<forall>q \<in> set (controls (this w) @ slides (this w)). elem_at (doc w) q \<noteq> None \<and> clear_at w q)"

lemma anchoredD:
  assumes "anchored w" "q \<in> set (controls (this w)) \<or> q \<in> set (slides (this w))"
  shows "elem_at (doc w) q \<noteq> None" "clear_at w q"
  using assms by (auto simp: anchored_def)

lemma anchoredI: "layout_ok w \<Longrightarrow> deck_ok w \<Longrightarrow> anchored w"
  unfolding anchored_def
proof (intro ballI)
  fix q
  assume w: "layout_ok w" "deck_ok w" and "q \<in> set (controls (this w) @ slides (this w))"
  then consider "q \<in> set (controls (this w))" | "q \<in> set (slides (this w))" by auto
  then show "elem_at (doc w) q \<noteq> None \<and> clear_at w q"
  proof cases
    case 1
    note l = w(1) [unfolded layout_ok_def]
    have "\<not> strict_prefix p q" if "p \<in> set (controls (this w))" for p
      using l that 1 by (cases "p = q") (auto simp: laid_out_def dest: parallel_not_strict_prefix)
    moreover have "\<not> strict_prefix a q"
      if "a \<in> set (querySelectorAll (ById ''slide-announcement'') (doc w))" for a
      using l that 1 unfolding laid_out_def by (blast dest: parallel_not_strict_prefix(1))
    ultimately show ?thesis using laid_out_control(2) [OF l 1] by (simp add: clear_at_def)
  next
    case 2
    with w(2) show ?thesis by (simp add: deck_okD)
  qed
qed

section \<open>The references stay typed\<close>

lemma ref_ok_cong:
  "(\<And>p. r = Some p \<Longrightarrow> map_option kind_of (elem_at d' p) = map_option kind_of (elem_at d p)) \<Longrightarrow>
     ref_ok d' i r = ref_ok d i r"
  by (cases r) (simp_all add: ref_ok_def matches_kind_of del: matches.simps)

lemma refs_ok_cong:
  assumes "same_object w w'"
    "\<And>q. q \<in> set (controls (this w)) \<or> q \<in> set (slides (this w)) \<Longrightarrow>
       map_option kind_of (elem_at (doc w') q) = map_option kind_of (elem_at (doc w) q)"
  shows "refs_ok w' = refs_ok w"
proof -
  note f = same_object_fields [OF assms(1)]
  have "ref_ok (doc w') i r = ref_ok (doc w) i r"
    if "r \<in> {prevBtn (this w), nextBtn (this w), currentSlideSpan (this w), totalSlidesSpan (this w),
      progressFill (this w)}" for i r
    using that by (intro ref_ok_cong assms(2)) (auto simp: in_controls)
  moreover have "list_all (matches (doc w') (ByClass ''slide'')) (slides (this w)) =
      list_all (matches (doc w) (ByClass ''slide'')) (slides (this w))"
    by (simp add: list_all_iff matches_kind_of assms(2) del: matches.simps)
  ultimately show ?thesis by (simp add: refs_ok_def Let_def f)
qed

lemma same_object_this: "this w' = this w \<Longrightarrow> same_object w w'"
  by (simp add: same_object_def)

lemma kept_mark_active:
  assumes "\<And>e. f (classList_add ''active'' e) = f e"
    "\<And>e. f (classList_remove [''active'', ''prev''] e) = f e"
  shows "map_option f (elem_at (doc (mark_active n w)) q) = map_option f (elem_at (doc w) q)"
  using assms
  by (simp add: doc_mark_active elem_at_upd_elem elem_at_fold_upd_elem option.map_comp comp_def
      split: option.splits)

lemma kept_goToSlide:
  assumes "untouched f" "\<And>e. f (classList_add ''active'' e) = f e"
    "\<And>e. f (classList_remove [''active'', ''prev''] e) = f e"
    "elem_at (doc w) q \<noteq> None" "clear_at w q"
  shows "map_option f (elem_at (doc (goToSlide n w)) q) = map_option f (elem_at (doc w) q)"
proof (cases "js_lt n (Fin 1) \<or> js_gt n (totalSlides (this w))")
  case False
  let ?m = "mark_active n w"
  have "clear_at ?m q"
    using assms(5,4) by (rule clear_at_keeps) (simp_all add: keeps_mark_active)
  moreover from assms(4) have "elem_at (doc ?m) q \<noteq> None" by simp
  ultimately have "map_option f (elem_at (doc (refresh_display ?m)) q) = map_option f (elem_at (doc ?m) q)"
    using assms(1) by (intro kept_refresh_display)
  with False show ?thesis
    by (simp add: goToSlide_halves kept_mark_active [of f, OF assms(2,3)])
qed (simp add: goToSlide_halves)

lemma refs_ok_goToSlide [wf_keep]:
  assumes "anchored w" "refs_ok w"
  shows "refs_ok (goToSlide n w)"
proof -
  have "refs_ok (goToSlide n w) = refs_ok w"
    by (rule refs_ok_cong)
      (simp_all add: same_object_goToSlide same_object_this kept_goToSlide anchoredD [OF assms(1)])
  with assms(2) show ?thesis by simp
qed

lemma refs_ok_touch [simp]: "refs_ok (w\<lparr>touch := t\<rparr>) = refs_ok w"
  by (simp add: refs_ok_def)

lemma refs_ok_set_text:
  assumes "anchored w" "p \<in> set (controls (this w))" "this w' = this w"
    "doc w' = set_textContent p s (doc w)"
  shows "refs_ok w' = refs_ok w"
proof (rule refs_ok_cong [OF same_object_this [OF assms(3)]])
  fix q
  assume "q \<in> set (controls (this w)) \<or> q \<in> set (slides (this w))"
  from clear_atD(1) [OF anchoredD(2) [OF assms(1) this] assms(2)]
  show "map_option kind_of (elem_at (doc w') q) = map_option kind_of (elem_at (doc w) q)"
    by (simp add: assms(4) elem_at_set_textContent)
qed

lemma refs_ok_updateSlideDisplay [wf_keep]:
  assumes "anchored w" "refs_ok w"
  shows "refs_ok (updateSlideDisplay w)"
proof (cases "currentSlideSpan (this w)")
  case (Some p)
  with assms(2) refs_ok_set_text [OF assms(1), of p "updateSlideDisplay w"] show ?thesis
    by (simp add: in_controls updateSlideDisplay_def)
qed (use assms(2) in \<open>simp add: updateSlideDisplay_def\<close>)

lemma refs_ok_body_class [wf_keep]:
  "refs_ok w \<Longrightarrow> refs_ok (w\<lparr>doc := upd_elem [] (classList_add ''loaded'') (doc w)\<rparr>)"
  using refs_ok_cong [of w "w\<lparr>doc := upd_elem [] (classList_add ''loaded'') (doc w)\<rparr>"]
  by (simp add: kept_upd_elem same_object_this)

lemma refs_ok_init [wf_keep]:
  assumes "anchored w" "refs_ok w"
  shows "refs_ok (init w)"
proof -
  have "refs_ok (init w) = refs_ok w"
  proof (rule refs_ok_cong)
    fix q
    assume q: "q \<in> set (controls (this w)) \<or> q \<in> set (slides (this w))"
    note c = clear_atD(1) [OF anchoredD(2) [OF assms(1) q]]
    have "map_option kind_of (elem_at (doc (update_display w)) q) = map_option kind_of (elem_at (doc w) q)"
      using c by (intro kept_update_display) simp_all
    with c show "map_option kind_of (elem_at (doc (init w)) q) = map_option kind_of (elem_at (doc w) q)"
      by (simp add: doc_init elem_at_set_textContent in_controls split: option.splits)
  qed (simp add: same_object_this)
  with assms(2) show ?thesis by simp
qed

lemma refs_ok_new_Presentation:
  assumes "markup_ok d" "markup_deck d"
  shows "refs_ok (new_Presentation d ls)"
  unfolding new_Presentation_def
proof (rule refs_ok_init [OF anchoredI])
  let ?w = "\<lparr>this = new_object d, doc = d, listeners = ls,
    touch = \<lparr>startX = Fin 0, startY = Fin 0, endX = Fin 0, endY = Fin 0\<rparr>\<rparr>"
  from assms(1) show "layout_ok ?w" by (simp add: layout_ok_def markup_ok_def)
  from assms(2) show "deck_ok ?w"
    by (simp add: markup_deck_def deck_shown_def deck_ok_def clear_at_def)
  show "refs_ok ?w" by (rule refs_ok_new_object) simp
qed

text \<open>
  The state of a page that follows the host contract: the display is in
  step, the deck is that of the markup, the references are typed, and the
  object holds what the constructor found.
\<close>

definition sound :: "node \<Rightarrow> world \<Rightarrow> bool" where
  "sound d w \<longleftrightarrow>
     shown_ok w \<and> deck_of d w \<and> refs_ok w \<and> (this w)\<lparr>currentSlide := Fin 1\<rparr> = new_object d"

lemma soundD:
  assumes "sound d w"
  shows "shown_ok w" "position_ok w" "deck_of d w" "refs_ok w" "anchored w"
    "(this w)\<lparr>currentSlide := Fin 1\<rparr> = new_object d"
  using assms by (simp_all add: sound_def shown_okD anchoredI shown_ok_def deck_of_def deck_shownD)

lemma sound_goToSlide [wf_keep]:
  assumes "sound d w" "safe_int n"
  shows "sound d (goToSlide n w)"
  using soundD [OF assms(1)] assms(2)
  by (simp add: sound_def shown_ok_safe deck_of_goToSlide refs_ok_goToSlide this_goToSlide)

lemma sound_touch [simp]: "sound d (w\<lparr>touch := t\<rparr>) = sound d w"
  by (simp add: sound_def)

lemma sound_updateSlideDisplay [wf_keep]:
  assumes "sound d w"
  shows "sound d (updateSlideDisplay w)"
  using soundD [OF assms]
  by (simp add: sound_def shown_ok_updateSlideDisplay deck_of_updateSlideDisplay
      refs_ok_updateSlideDisplay)

lemma sound_body_class [wf_keep]:
  assumes "sound d w"
  shows "sound d (w\<lparr>doc := upd_elem [] (classList_add ''loaded'') (doc w)\<rparr>)"
  using soundD [OF assms]
  by (simp add: sound_def shown_ok_body_class deck_of_body_class refs_ok_body_class)

lemma sound_new_Presentation:
  "markup_ok d \<Longrightarrow> markup_deck d \<Longrightarrow> sound d (new_Presentation d ls)"
  by (simp add: sound_def shown_ok_new_Presentation deck_of_new_Presentation
      refs_ok_new_Presentation new_object_def)

end
