(* ===== verification/Announcement.thy ===== *)
theory Announcement
  imports Slides
begin

text \<open>
  The announcement for screen readers. \<open>announceSlideChange\<close> finds the
  element with the \<open>id\<close> \<open>slide-announcement\<close> or appends one to the body, and
  writes the title of the current slide and its number into it. The theory
  shows what the live region contains afterwards and that the region is the
  one found again by the next announcement.
\<close>

section \<open>Selectors in a grown tree\<close>

lemma elem_at_prefix:
  "elem_at d q \<noteq> None \<Longrightarrow> prefix r q \<Longrightarrow> elem_at d r \<noteq> None"
proof (induction r arbitrary: d q)
  case Nil
  then show ?case by (cases d; cases q) (simp_all add: elem_at_def)
next
  case (Cons i r)
  then obtain q' where q: "q = i # q'" "prefix r q'" by (cases q) auto
  with Cons.prems(1) obtain e ks where d: "d = Elem e ks" by (cases d) simp_all
  with Cons.prems(1) q Cons.IH [of "ks ! i" q'] show ?case by (simp split: if_splits)
qed

lemma matches_appendChild_old:
  "elem_at d q \<noteq> None \<Longrightarrow> matches (appendChild c d) s q = matches d s q"
proof (induction s arbitrary: q)
  case (Descendant a s)
  have "matches (appendChild c d) a r = matches d a r" if "r \<in> set (butlast (prefixes q))" for r
  proof -
    from that have "prefix r q" by (auto dest: in_set_butlastD simp: in_set_prefixes)
    with Descendant.prems have "elem_at d r \<noteq> None" by (rule elem_at_prefix)
    then show ?thesis by (rule Descendant.IH(1))
  qed
  with Descendant.IH(2) [OF Descendant.prems] show ?case by (simp add: list_ex_iff)
qed (simp_all add: elem_at_appendChild_keep)

lemma querySelector_appendChild_old:
  assumes "elem_of d \<noteq> None" "\<not> matches (appendChild c d) s [child_count d]" "paths_of c = [[]]"
  shows "querySelector s (appendChild c d) = querySelector s d"
proof -
  from assms(1) obtain e ks where d: "d = Elem e ks" by (cases d) simp_all
  have "querySelector s (appendChild c d) =
      find (matches (appendChild c d) s) (paths_of d @ [[child_count d]])"
    by (simp only: querySelector_def d paths_of_appendChild assms(3) list.map child_count.simps)
  also have "\<dots> = find (matches (appendChild c d) s) (paths_of d)"
    by (rule find_append_None) (use assms(2) in simp)
  also have "\<dots> = find (matches d s) (paths_of d)"
    by (rule find_cong_set) (simp add: matches_appendChild_old)
  finally show ?thesis by (simp only: querySelector_def)
qed

lemma querySelector_appendChild_new:
  assumes "elem_of d \<noteq> None" "querySelector s d = None" "matches (appendChild c d) s [child_count d]"
    "paths_of c = [[]]"
  shows "querySelector s (appendChild c d) = Some [child_count d]"
proof -
  from assms(1) obtain e ks where d: "d = Elem e ks" by (cases d) simp_all
  have "find (matches (appendChild c d) s) (paths_of d) = find (matches d s) (paths_of d)"
    by (rule find_cong_set) (simp add: matches_appendChild_old)
  with assms(2) have "find (matches (appendChild c d) s) (paths_of d) = None"
    by (simp add: querySelector_def)
  moreover have "querySelector s (appendChild c d) =
      find (matches (appendChild c d) s) (paths_of d @ [[child_count d]])"
    by (simp only: querySelector_def d paths_of_appendChild assms(4) list.map child_count.simps)
  ultimately show ?thesis using assms(3) by (simp add: find_append)
qed

lemma querySelector_set_textContent_same:
  assumes "querySelector (ById i) d = Some a"
  shows "querySelector (ById i) (set_textContent a s d) = Some a"
proof -
  let ?keep = "filter (\<lambda>q. \<not> strict_prefix a q) (paths_of d)"
  have "find (matches (set_textContent a s d) (ById i)) ?keep = find (matches d (ById i)) ?keep"
    by (rule find_cong_set) (simp add: elem_at_set_textContent)
  also have "\<dots> = Some a"
    using assms unfolding querySelector_def by (rule find_filter_Some) simp
  finally show ?thesis by (simp add: querySelector_def paths_of_set_textContent)
qed

section \<open>The live region\<close>

lemma paths_of_announcement_div [simp]: "paths_of announcement_div = [[]]"
  by (simp add: announcement_div_def createElement_def)

lemma elem_of_announcement_div_fields:
  "\<exists>e. elem_of announcement_div = Some e \<and> elem_id e = ''slide-announcement'' \<and>
       classList e = [''sr-only'']"
  by (simp add: announcement_div_def createElement_def setAttribute_def)

lemma new_live_region:
  assumes "elem_of d \<noteq> None"
  shows "matches (appendChild announcement_div d) (ById ''slide-announcement'') [child_count d]"
    and "\<not> matches (appendChild announcement_div d) (title_selector n) [child_count d]"
  using elem_of_announcement_div_fields assms
  by (auto simp: elem_at_appendChild_new title_selector_def)

lemma getElementById_live_region:
  assumes "elem_of d \<noteq> None"
  shows "getElementById ''slide-announcement'' (fst (live_region d)) = Some (snd (live_region d))"
proof (cases "getElementById ''slide-announcement'' d")
  case None
  with assms new_live_region(1) [OF assms] show ?thesis
    by (simp add: live_region_def getElementById_def querySelector_appendChild_new
        del: matches.simps)
qed (simp add: live_region_def)

lemma title_not_root: "\<not> matches d (title_selector n) []"
  by (simp add: title_selector_def)

lemma slideTitle_live_region:
  assumes "elem_of d \<noteq> None"
  shows "slideTitle n (fst (live_region d)) = slideTitle n d"
proof (cases "getElementById ''slide-announcement'' d")
  case None
  let ?d = "appendChild announcement_div d"
  have q: "querySelector (title_selector n) ?d = querySelector (title_selector n) d"
    using assms new_live_region(2) [OF assms] by (intro querySelector_appendChild_old) simp_all
  have "textContent ?d t = textContent d t" if "querySelector (title_selector n) d = Some t" for t
  proof -
    from that have "elem_at d t \<noteq> None" "matches d (title_selector n) t"
      by (auto simp: querySelector_def dest!: find_Some_in_set)
    with title_not_root [of d n] show ?thesis by (intro textContent_appendChild) auto
  qed
  with q None show ?thesis
    by (simp add: slideTitle_def live_region_def split: option.splits)
qed (simp add: live_region_def)

section \<open>Properties of the announcement\<close>

text \<open>
  C16 (functional). After \<open>announceSlideChange\<close> the document has a live
  region, the first element with the \<open>id\<close> \<open>slide-announcement\<close>: the one it
  had before, or a new last child of the body. Its text is the title of the
  current slide (or \<open>Slide n\<close> when the slide has none), a full stop, and
  the position among the total.
\<close>

theorem announcement_text:
  assumes "elem_of (doc w) \<noteq> None"
  shows "getElementById ''slide-announcement'' (doc (announceSlideChange w)) =
           Some (case getElementById ''slide-announcement'' (doc w) of
                   Some a \<Rightarrow> a | None \<Rightarrow> [child_count (doc w)]) \<and>
         Option.bind (getElementById ''slide-announcement'' (doc (announceSlideChange w)))
           (textContent (doc (announceSlideChange w))) =
           Some (slideTitle (Number_toString (currentSlide (this w))) (doc w) @ ''. Slide '' @
                 Number_toString (currentSlide (this w)) @ '' of '' @
                 Number_toString (totalSlides (this w)))"
proof -
  let ?r = "live_region (doc w)"
  note g = getElementById_live_region [OF assms]
  then obtain e where e: "elem_at (fst ?r) (snd ?r) = Some e" by (auto dest: getElementById_Some)
  from g have "getElementById ''slide-announcement'' (doc (announceSlideChange w)) = Some (snd ?r)"
    unfolding announceSlideChange_live getElementById_def by (rule querySelector_set_textContent_same)
  moreover have "snd ?r = (case getElementById ''slide-announcement'' (doc w) of
      Some a \<Rightarrow> a | None \<Rightarrow> [child_count (doc w)])"
    by (simp add: live_region_def split: option.splits)
  ultimately show ?thesis
    using e by (simp add: announceSlideChange_live slideTitle_live_region [OF assms])
qed

theorem announcement_text_witness:
  "Option.bind (getElementById ''slide-announcement'' (doc (announceSlideChange sample_world)))
     (textContent (doc (announceSlideChange sample_world))) = Some ''Welcome. Slide 1 of 10''"
proof -
  have "slideTitle ''1'' sample_doc = ''Welcome''" by code_simp
  with announcement_text [of sample_world, THEN conjunct2] show ?thesis
    by (simp add: Number_toString_1_10 del: Number_toString.simps)
qed

end
