(* ===== verification/Reachable.thy ===== *)
theory Reachable
  imports Page References
begin

text \<open>
  The pages that the script can reach from a markup, as an inductive
  predicate over the steps of \<open>Page\<close>, and the way a property of the object
  becomes a property of every reachable page. A property of the state of the
  program is kept by the page when the constructor establishes it and
  \<open>goToSlide\<close>, \<open>updateSlideDisplay\<close> and the class that the load handler
  adds to the body keep it: these are the only ways in which the page script,
  the listeners and the calls of the interface change the object and the
  document.
\<close>

section \<open>Reachable pages\<close>

inductive reachable :: "node \<Rightarrow> page \<Rightarrow> bool" for d :: node where
  loaded: "reachable d (DOMContentLoaded (load_page d))"
| step: "reachable d pg \<Longrightarrow> reachable d (page_step ev pg)"

lemma reachable_run: "reachable d pg \<Longrightarrow> reachable d (page_run evs pg)"
  unfolding page_run_def by (induction evs arbitrary: pg) (auto intro: reachable.step)

lemma page_ok_reachable: "reachable d pg \<Longrightarrow> page_ok pg"
  by (induction rule: reachable.induct) (simp_all add: page_ok_DOMContentLoaded page_ok_page_step)

lemma page_run_snoc: "page_run (evs @ [ev]) pg = page_step ev (page_run evs pg)"
  by (simp add: page_run_def)

lemma page_run_Cons: "page_run (ev # evs) pg = page_run evs (page_step ev pg)"
  by (simp add: page_run_def)

lemma run_events_Cons: "run_events ((t, ev) # evs) w = run_events evs (fst (dispatch t ev w))"
  by (simp add: run_events_def)

section \<open>Lifting a property of the object to the page\<close>

text \<open>
  As long as the object does not exist the markup is untouched, no listener
  is registered and the one timer of the load handler is waiting; once it
  exists the property holds of the state of the program and the load handler
  does not run again.
\<close>

definition page_holds :: "(world \<Rightarrow> bool) \<Rightarrow> node \<Rightarrow> page \<Rightarrow> bool" where
  "page_holds I d pg \<longleftrightarrow>
     (case window_presentation pg of
        None \<Rightarrow> document pg = d \<and> registered pg = [] \<and> timers pg = [InitTask]
      | Some t \<Rightarrow> I (world_of t pg) \<and> InitTask \<notin> set (timers pg))"

lemma page_holds_start [simp]: "page_holds I d (DOMContentLoaded (load_page d))"
  by (simp add: page_holds_def DOMContentLoaded_def load_page_def)

lemma page_holds_if_presentation:
  assumes "page_holds I d pg" "\<And>w. I w \<Longrightarrow> I (m w)"
  shows "page_holds I d (if_presentation m pg)"
  using assms by (auto simp: page_holds_def if_presentation_def split: option.splits)

lemma page_holds_init_task:
  assumes "\<And>w. I w \<Longrightarrow> I (w\<lparr>doc := upd_elem [] (classList_add ''loaded'') (doc w)\<rparr>)"
    "I (new_Presentation d [])" "document pg = d" "registered pg = []" "InitTask \<notin> set (timers pg)"
  shows "page_holds I d (init_task pg)"
proof -
  have "I (world_of (new_object d) (init_task pg))"
    unfolding world_of_init_task [of pg, unfolded assms(3,4)] by (intro assms(1,2))
  with assms(3-5) show ?thesis by (simp add: page_holds_def init_task_this)
qed

lemma page_holds_mono:
  "page_holds I d pg \<Longrightarrow> (\<And>w. I w \<Longrightarrow> J w) \<Longrightarrow> page_holds J d pg"
  by (auto simp: page_holds_def split: option.splits)

lemma page_holds_step:
  assumes pos: "\<And>w. I w \<Longrightarrow> position_ok w"
    and go: "\<And>w n. I w \<Longrightarrow> safe_int n \<Longrightarrow> I (goToSlide n w)"
    and touch: "\<And>w t. I (w\<lparr>touch := t\<rparr>) = I w"
    and upd: "\<And>w. I w \<Longrightarrow> I (updateSlideDisplay w)"
    and body: "\<And>w. I w \<Longrightarrow> I (w\<lparr>doc := upd_elem [] (classList_add ''loaded'') (doc w)\<rparr>)"
    and new: "I (new_Presentation d [])"
    and pg: "page_holds I d pg"
  shows "page_holds I d (page_step ev pg)"
proof (cases "window_presentation pg")
  case None
  with pg have d: "document pg = d" "registered pg = []" "timers pg = [InitTask]"
    by (simp_all add: page_holds_def)
  show ?thesis
  proof (cases ev)
    case TimerFires
    with d show ?thesis by (simp add: page_holds_init_task [of I, OF body new])
  next
    case (Input t e)
    with None pg show ?thesis
      by (cases "(ev, pg)" rule: page_step.cases)
        (auto simp: page_click_def run_onclick_def split: option.splits onclick_handler.splits)
  qed (use None pg in simp_all)
next
  case (Some t)
  with pg have ok: "I (world_of t pg)" "InitTask \<notin> set (timers pg)"
    by (simp_all add: page_holds_def)
  have m: "I (nextSlide w)" "I (previousSlide w)" "I (fst (dispatch tg e w))" "I (perform c w)"
    if "I w" for w tg e c
    using navigation_preserves(1,2) [of I, OF go that pos [OF that]]
      dispatch_preserves [of I, OF go touch that pos [OF that]]
      perform_preserves [of I, OF go that pos [OF that]] by simp_all
  note keep = page_holds_if_presentation [of I d]
  have timer: "page_holds I d (pg\<lparr>timers := ts\<rparr>)" if "InitTask \<notin> set ts" for ts
    using Some ok(1) that by (simp add: page_holds_def)
  show ?thesis
  proof (cases "(ev, pg)" rule: page_step.cases)
    case (1 pg')
    then show ?thesis
    proof (cases "timers pg")
      case (Cons k ks)
      with ok(2) have "k = RefreshTask" "InitTask \<notin> set ks" by (cases k; simp)+
      with 1 Cons timer [of ks] show ?thesis by (simp add: keep upd)
    qed (use pg in simp)
  next
    case (3 pg')
    with Some ok(2) timer [of "timers pg @ [RefreshTask]"] show ?thesis by simp
  next
    case (4 p pg')
    with pg show ?thesis
      by (simp add: page_click_def run_onclick_def keep m
          split: option.splits onclick_handler.splits)
  qed (use pg in \<open>simp_all add: keep m upd\<close>)
qed

lemma page_holds_reachable:
  assumes "\<And>w. I w \<Longrightarrow> position_ok w"
    and "\<And>w n. I w \<Longrightarrow> safe_int n \<Longrightarrow> I (goToSlide n w)"
    and "\<And>w t. I (w\<lparr>touch := t\<rparr>) = I w"
    and "\<And>w. I w \<Longrightarrow> I (updateSlideDisplay w)"
    and "\<And>w. I w \<Longrightarrow> I (w\<lparr>doc := upd_elem [] (classList_add ''loaded'') (doc w)\<rparr>)"
    and "I (new_Presentation d [])"
    and "reachable d pg"
  shows "page_holds I d pg"
  using assms(7)
  by induction (simp_all add: page_holds_step [of I, OF assms(1-6)])

section \<open>The keyboard\<close>

text \<open>
  The constructor registers one listener for \<open>keydown\<close> on the document,
  whatever the markup, and nothing registers another: a key pressed on a
  page whose object exists runs \<open>handleKeyPress\<close> once.
\<close>

definition key_listeners :: "world \<Rightarrow> callback list" where
  "key_listeners w =
     map callback (filter (\<lambda>l. on_target l = Document \<and> on_event l = ''keydown'') (listeners w))"

definition wired :: "world \<Rightarrow> bool" where
  "wired w \<longleftrightarrow> position_ok w \<and> totalSlides (this w) = Fin 10 \<and> key_listeners w = [KeyDown]"

lemma key_listeners_new_Presentation: "key_listeners (new_Presentation d []) = [KeyDown]"
  by (simp add: key_listeners_def new_Presentation_def init_def addTouchSupport_def
      addEventListener_def Let_def split: option.splits)

lemma fst_dispatch_key:
  "fst (dispatch Document (Key k) w) =
     fold (\<lambda>cb w. fst (run_callback cb (Key k) w)) (key_listeners w) w"
  by (simp add: dispatch_def key_listeners_def fst_fold_deliver)

lemma wired_key: "wired w \<Longrightarrow> fst (dispatch Document (Key k) w) = fst (handleKeyPress k w)"
  by (simp add: fst_dispatch_key wired_def)

lemma wired_goToSlide [wf_keep]: "wired w \<Longrightarrow> safe_int n \<Longrightarrow> wired (goToSlide n w)"
  by (simp add: wired_def key_listeners_def position_ok_goToSlide)

lemma wired_touch [simp]: "wired (w\<lparr>touch := t\<rparr>) = wired w"
  by (simp add: wired_def key_listeners_def)

lemma wiredD: "wired w \<Longrightarrow> position_ok w"
  by (simp add: wired_def)

lemma wired_dispatch [wf_keep]: "wired w \<Longrightarrow> wired (fst (dispatch t ev w))"
  by (rule dispatch_preserves [where I = wired, rotated 2]) (simp_all add: wired_goToSlide wiredD)

lemma wired_doc [simp]: "wired (w\<lparr>doc := d\<rparr>) = wired w"
  by (simp add: wired_def key_listeners_def position_ok_cong [of "w\<lparr>doc := d\<rparr>" w])

lemma wired_updateSlideDisplay [wf_keep]: "wired w \<Longrightarrow> wired (updateSlideDisplay w)"
  by (simp add: wired_def key_listeners_def position_ok_updateSlideDisplay)

lemma wired_new_Presentation: "wired (new_Presentation d [])"
  by (simp add: wired_def key_listeners_new_Presentation position_ok_new_Presentation)

lemma wired_reachable: "reachable d pg \<Longrightarrow> page_holds wired d pg"
  by (rule page_holds_reachable [rotated -1])
    (simp_all add: wiredD wired_goToSlide wired_updateSlideDisplay wired_new_Presentation)

text \<open>The position after \<open>Home\<close> and after a number of presses of \<open>ArrowRight\<close>.\<close>

lemma position_Home:
  "wired w \<Longrightarrow> position (fst (dispatch Document (Key ''Home'') w)) = 1"
  by (simp add: wired_key handleKeyPress_def this_goToSlide wired_def)

lemma position_ArrowRight:
  "wired w \<Longrightarrow>
     position (fst (dispatch Document (Key ''ArrowRight'') w)) = min (position w + 1) 10"
  by (simp add: wired_key handleKeyPress_def this_nextSlide wired_def)

lemma position_ArrowRights:
  assumes "wired w"
  shows "position (run_events (replicate j (Document, Key ''ArrowRight'')) w) =
           min (position w + int j) 10"
  using assms unfolding run_events_def
proof (induction j arbitrary: w)
  case (Suc j)
  from Suc.prems have "position w \<le> 10" by (auto simp: wired_def position_ok_def)
  with Suc.IH [OF wired_dispatch [OF Suc.prems]] position_ArrowRight [OF Suc.prems]
  show ?case by (simp add: min_def)
qed (auto simp: wired_def position_ok_def)

text \<open>Keys pressed on a page whose object exists are events of the object.\<close>

lemma store_world_twice [simp]: "store_world w (store_world w' pg) = store_world w pg"
  by (simp add: store_world_def)

lemma store_world_same: "window_presentation pg = Some t \<Longrightarrow> store_world (world_of t pg) pg = pg"
  by (simp add: store_world_def world_of_def)

lemma page_run_keys:
  assumes "window_presentation pg = Some t"
  shows "page_run (map (Input Document) es) pg =
           store_world (run_events (map (Pair Document) es) (world_of t pg)) pg"
  using assms unfolding page_run_def run_events_def
proof (induction es arbitrary: pg t)
  case (Cons e es)
  let ?w = "fst (dispatch Document e (world_of t pg))"
  from Cons.prems have "page_step (Input Document e) pg = store_world ?w pg"
    by (cases e) (simp_all add: if_presentation_Some)
  with Cons.IH [of "store_world ?w pg" "this ?w"] show ?case by simp
qed (simp add: store_world_same)

lemma page_position_store_world [simp]: "page_position (store_world w pg) = Some (position w)"
  by (simp add: page_position_def)

lemma timer_leaves_object:
  assumes "page_holds I d pg"
  shows "window_presentation (page_step TimerFires pg) \<noteq> None"
proof (cases "window_presentation pg")
  case None
  with assms show ?thesis by (simp add: page_holds_def init_task_this)
next
  case (Some t)
  then show ?thesis
    by (cases "timers pg"; cases "hd (timers pg)") (auto simp: init_task_this)
qed

section \<open>Properties of the reachable pages\<close>


text \<open>
  C28 (liveness). Every slide can be reached from every state of every page,
  whatever its markup: when the pending timer has fired, the key \<open>Home\<close>
  followed by \<open>k - 1\<close> presses of \<open>ArrowRight\<close> leaves the page at slide \<open>k\<close>.
\<close>

theorem every_slide_reachable:
  assumes "reachable d pg" "1 \<le> k" "k \<le> 10"
  shows "page_position
           (page_run (TimerFires #
              map (Input Document) (Key ''Home'' # replicate (nat (k - 1)) (Key ''ArrowRight''))) pg) =
         Some k"
proof -
  let ?pg = "page_step TimerFires pg"
  from assms(1) have "reachable d ?pg" by (rule reachable.step)
  then have h: "page_holds wired d ?pg" by (rule wired_reachable)
  from timer_leaves_object [OF wired_reachable [OF assms(1)]]
  obtain t where t: "window_presentation ?pg = Some t" by blast
  with h have w: "wired (world_of t ?pg)" by (simp add: page_holds_def)
  let ?w = "fst (dispatch Document (Key ''Home'') (world_of t ?pg))"
  let ?ks = "Key ''Home'' # replicate (nat (k - 1)) (Key ''ArrowRight'')"
  have "position (run_events (replicate (nat (k - 1)) (Document, Key ''ArrowRight'')) ?w) = k"
    using assms(2,3) position_Home [OF w]
      position_ArrowRights [OF wired_dispatch [OF w, of Document "Key ''Home''"], of "nat (k - 1)"]
    by simp
  moreover have "run_events (map (Pair Document) ?ks) (world_of t ?pg) =
      run_events (replicate (nat (k - 1)) (Document, Key ''ArrowRight'')) ?w"
    by (simp only: list.map map_replicate run_events_Cons)
  moreover have "page_run (TimerFires # map (Input Document) ?ks) pg =
      store_world (run_events (map (Pair Document) ?ks) (world_of t ?pg)) ?pg"
    by (simp only: page_run_Cons page_run_keys [OF t])
  ultimately show ?thesis by (simp only: page_position_store_world)
qed

theorem every_slide_reachable_witness:
  "page_position
     (page_run (TimerFires #
        map (Input Document) (Key ''Home'' # replicate 6 (Key ''ArrowRight'')))
        (DOMContentLoaded (load_page sample_page))) = Some 7"
  using every_slide_reachable [OF reachable.loaded, of 7 sample_page] by simp

end
