(* ===== verification/Propagation.thy ===== *)
theory Propagation
  imports Reachable
begin

text \<open>
  Event propagation. The program registers its keyboard listener on the
  document and its touch listeners on the presentation container, and relies
  on the browser to bring the events of the elements inside to them: an
  event at an element runs the listeners of the element, then those of its
  ancestors from the inside out, then those of the document. The program
  registers no capturing listener and never stops the propagation, so the
  bubbling phase is all there is. \<open>bubble\<close> delivers an event along this
  path with \<open>dispatch\<close>; the lemmas show which callbacks run.
\<close>

section \<open>The propagation path\<close>

definition propagation_path :: "target \<Rightarrow> target list" where
  "propagation_path t =
     (case t of Document \<Rightarrow> [Document]
      | Element p \<Rightarrow> map Element (rev (prefixes p)) @ [Document])"

definition bubble :: "target \<Rightarrow> event \<Rightarrow> world \<Rightarrow> world" where
  "bubble t ev w = run_events (map (\<lambda>tg. (tg, ev)) (propagation_path t)) w"

definition page_bubble :: "target \<Rightarrow> event \<Rightarrow> page \<Rightarrow> page" where
  "page_bubble t ev pg = page_run (map (\<lambda>tg. Input tg ev) (propagation_path t)) pg"

text \<open>The listeners registered for a type of event, and those on the path of an event.\<close>

definition listeners_for :: "string \<Rightarrow> world \<Rightarrow> (target \<times> callback) list" where
  "listeners_for ty w =
     map (\<lambda>l. (on_target l, callback l)) (filter (\<lambda>l. on_event l = ty) (listeners w))"

definition path_listeners :: "target \<Rightarrow> event \<Rightarrow> world \<Rightarrow> callback list" where
  "path_listeners t ev w =
     concat (map (\<lambda>tg. map snd (filter (\<lambda>tc. fst tc = tg) (listeners_for (event_type ev) w)))
               (propagation_path t))"

lemma in_propagation_path [simp]:
  "Document \<in> set (propagation_path t)"
  "Element c \<in> set (propagation_path t) \<longleftrightarrow> (\<exists>p. t = Element p \<and> prefix c p)"
  by (cases t; auto simp: propagation_path_def in_set_prefixes)+

lemma distinct_propagation_path [simp]: "distinct (propagation_path t)"
  by (cases t) (auto simp: propagation_path_def distinct_map inj_on_def)

section \<open>The callbacks that run\<close>

lemma listeners_run_callback [simp]: "listeners (fst (run_callback cb ev w)) = listeners w"
  by (cases "(cb, ev, w)" rule: run_callback.cases)
    (simp_all add: handleKeyPress_def touchstart_def touchend_def Let_def)

lemma listeners_fold_callbacks [simp]:
  "listeners (fold (\<lambda>cb w. fst (run_callback cb ev w)) cbs w) = listeners w"
  by (induction cbs arbitrary: w) simp_all

lemma fst_dispatch_callbacks:
  "fst (dispatch tg ev w) =
     fold (\<lambda>cb w. fst (run_callback cb ev w))
       (map snd (filter (\<lambda>tc. fst tc = tg) (listeners_for (event_type ev) w))) w"
proof -
  have "filter (\<lambda>tc. fst tc = tg)
      (map (\<lambda>l. (on_target l, callback l)) (filter (\<lambda>l. on_event l = event_type ev) (listeners w))) =
    map (\<lambda>l. (on_target l, callback l))
      (filter (\<lambda>l. on_target l = tg \<and> on_event l = event_type ev) (listeners w))"
    by (induction "listeners w") (auto simp: filter_map comp_def conj_commute)
  then show ?thesis
    by (simp add: dispatch_def listeners_for_def fst_fold_deliver comp_def)
qed

lemma listeners_for_dispatch [simp]:
  "listeners_for ty (fst (dispatch tg ev w)) = listeners_for ty w"
  by (simp add: fst_dispatch_callbacks listeners_for_def)

lemma run_events_callbacks:
  "run_events (map (\<lambda>tg. (tg, ev)) ts) w =
     fold (\<lambda>cb w. fst (run_callback cb ev w))
       (concat (map (\<lambda>tg. map snd (filter (\<lambda>tc. fst tc = tg) (listeners_for (event_type ev) w))) ts)) w"
proof (induction ts arbitrary: w)
  case (Cons tg ts)
  show ?case
    by (simp add: run_events_Cons Cons.IH) (simp add: fst_dispatch_callbacks)
qed (simp add: run_events_def)

lemma bubble_callbacks:
  "bubble t ev w = fold (\<lambda>cb w. fst (run_callback cb ev w)) (path_listeners t ev w) w"
  by (simp add: bubble_def run_events_callbacks path_listeners_def)

lemma listeners_bubble [simp]: "listeners (bubble t ev w) = listeners w"
  by (simp add: bubble_callbacks)

lemma path_listeners_single:
  assumes "listeners_for (event_type ev) w = [(tg, cb)]"
  shows "path_listeners t ev w = (if tg \<in> set (propagation_path t) then [cb] else [])"
proof -
  have "concat (map (\<lambda>x. map snd (filter (\<lambda>tc. fst tc = x) [(tg, cb)])) ts) =
      (if tg \<in> set ts then [cb] else [])" if "distinct ts" for ts
    using that by (induction ts) auto
  then show ?thesis by (simp add: path_listeners_def assms)
qed

section \<open>Inputs that are not clicks\<close>

lemma page_run_inputs:
  assumes "window_presentation pg = Some t" "\<forall>te \<in> set tes. snd te \<noteq> Click"
  shows "page_run (map (\<lambda>te. Input (fst te) (snd te)) tes) pg =
           store_world (run_events tes (world_of t pg)) pg"
  using assms unfolding page_run_def run_events_def
proof (induction tes arbitrary: pg t)
  case (Cons te tes)
  obtain tg e where te: "te = (tg, e)" by (cases te)
  let ?w = "fst (dispatch tg e (world_of t pg))"
  from Cons.prems te have "page_step (Input tg e) pg = store_world ?w pg"
    by (cases "(Input tg e, pg)" rule: page_step.cases) (simp_all add: if_presentation_Some)
  with Cons.IH [of "store_world ?w pg" "this ?w"] Cons.prems(2) te show ?case by simp
qed (simp add: store_world_same)

lemma page_bubble_world:
  assumes "window_presentation pg = Some t" "ev \<noteq> Click"
  shows "page_bubble tg ev pg = store_world (bubble tg ev (world_of t pg)) pg"
  using page_run_inputs [OF assms(1), of "map (\<lambda>tg. (tg, ev)) (propagation_path tg)"] assms(2)
  by (simp add: page_bubble_def bubble_def comp_def)

text \<open>The listeners of a reachable page are those that the constructor registered.\<close>

definition wired_as :: "node \<Rightarrow> world \<Rightarrow> bool" where
  "wired_as d w \<longleftrightarrow> wired w \<and> listeners w = listeners (new_Presentation d [])"

lemma wired_as_reachable: "reachable d pg \<Longrightarrow> page_holds (wired_as d) d pg"
  by (rule page_holds_reachable [rotated -1])
    (simp_all add: wired_as_def wiredD wired_goToSlide wired_updateSlideDisplay
      wired_new_Presentation)

lemma keydown_new_Presentation:
  "listeners_for ''keydown'' (new_Presentation d []) = [(Document, KeyDown)]"
  by (simp add: listeners_for_def new_Presentation_def init_def addTouchSupport_def
      addEventListener_def Let_def split: option.splits)

lemma touch_passive_new_Presentation:
  assumes "l \<in> set (listeners (new_Presentation d []))"
    "on_event l = ''touchstart'' \<or> on_event l = ''touchend''"
  shows "is_passive l"
  using assms
  by (auto simp: new_Presentation_def init_def addTouchSupport_def addEventListener_def Let_def
      split: option.splits)

lemma snd_fold_deliver_passive:
  "\<forall>l \<in> set ls. is_passive l \<Longrightarrow> snd (fold (deliver ev) ls st) = snd st"
  by (induction ls arbitrary: st) (simp_all add: deliver_def split: prod.splits)

lemma page_run_not_loaded:
  "window_presentation pg = None \<Longrightarrow> page_run (map (\<lambda>tg. Input tg (Key k)) ts) pg = pg"
  by (induction ts) (simp_all add: page_run_def)

section \<open>Properties of event propagation\<close>

text \<open>
  C17 (functional). A key pressed while any element has the focus: the
  event bubbles to the document, where the one keyboard listener of the
  constructor runs. In every state of every page a key runs
  \<open>handleKeyPress\<close> exactly once, or does nothing when the object does not
  exist yet.
\<close>

theorem key_pressed_anywhere:
  assumes "reachable d pg"
  shows "page_bubble tg (Key k) pg = if_presentation (\<lambda>w. fst (handleKeyPress k w)) pg"
proof (cases "window_presentation pg")
  case None
  then show ?thesis by (simp add: page_bubble_def page_run_not_loaded)
next
  case (Some t)
  with wired_as_reachable [OF assms] have "listeners (world_of t pg) = listeners (new_Presentation d [])"
    by (simp add: page_holds_def wired_as_def)
  then have "listeners_for ''keydown'' (world_of t pg) = [(Document, KeyDown)]"
    using keydown_new_Presentation [of d] by (simp add: listeners_for_def)
  then have "bubble tg (Key k) (world_of t pg) = fst (handleKeyPress k (world_of t pg))"
    by (simp add: bubble_callbacks path_listeners_single)
  with Some show ?thesis by (simp add: page_bubble_world if_presentation_Some)
qed

theorem key_pressed_anywhere_witness:
  "page_bubble (Element [0, 3]) (Key ''End'') (loaded_page sample_page) =
     if_presentation (\<lambda>w. fst (handleKeyPress ''End'' w)) (loaded_page sample_page)"
proof -
  have "reachable sample_page (loaded_page sample_page)"
    unfolding loaded_page_def by (intro reachable.intros)
  then show ?thesis by (rule key_pressed_anywhere)
qed



text \<open>
  C35 (safety). A swipe never suppresses the default action of the browser:
  the touch listeners are registered as passive, so in every state of every
  page the delivery of a touch event reports that the default action stays.
\<close>

theorem swipe_keeps_default:
  assumes "reachable d pg" "window_presentation pg = Some t"
    "ev = TouchStartAt x y \<or> ev = TouchEndAt x y"
  shows "\<not> snd (dispatch tg ev (world_of t pg))"
proof -
  from wired_as_reachable [OF assms(1)] assms(2)
  have "listeners (world_of t pg) = listeners (new_Presentation d [])"
    by (simp add: page_holds_def wired_as_def)
  with assms(3) touch_passive_new_Presentation [of _ d] show ?thesis
    by (auto simp: dispatch_def snd_fold_deliver_passive)
qed

theorem swipe_keeps_default_witness:
  "\<not> snd (dispatch (Element [0]) (TouchEndAt (Fin 20) (Fin 55))
           (world_of (this sample_world) (loaded_page sample_page)))"
proof -
  have "reachable sample_page (loaded_page sample_page)"
    unfolding loaded_page_def by (intro reachable.intros)
  moreover have "window_presentation (loaded_page sample_page) = Some (this sample_world)"
    by (simp add: sample_loaded_correct sample_loaded_def)
  ultimately show ?thesis by (rule swipe_keeps_default) simp
qed

end
