(* ===== verification/Clicks.thy ===== *)
theory Clicks
  imports Propagation
begin

text \<open>
  The two buttons from the load of the page on. The constructor adds a
  listener to each button (\<open>init\<close>, lines 29 to 35 of \<open>src/app.js\<close>) and the
  page script assigns a handler to the \<open>onclick\<close> property of the same
  buttons (lines 245 to 262), which it finds again by their identifiers in
  the document that the constructor has updated. This theory shows that on
  every markup that follows the host contract both lookups find the same
  elements, that nothing changes the handlers afterwards, and hence what a
  click on a button does on every page that can be reached.
\<close>

section \<open>Identifiers after an update\<close>

text \<open>
  \<open>getElementById\<close> finds the same element after an update that keeps the
  identifiers, as long as the element is not inside one whose text is
  replaced.
\<close>

lemma getElementById_upd_elem [simp]:
  assumes "\<And>e. elem_id (g e) = elem_id e"
  shows "getElementById i (upd_elem p g d) = getElementById i d"
proof -
  have "matches (upd_elem p g d) (ById i) q = matches d (ById i) q" for q
    by (cases "elem_at d p") (simp_all add: elem_at_upd_elem assms)
  then have "matches (upd_elem p g d) (ById i) = matches d (ById i)" by (intro ext)
  then show ?thesis by (simp add: getElementById_def querySelector_def)
qed

lemma getElementById_set_textContent:
  assumes "getElementById i d = Some a" "\<not> strict_prefix p a"
  shows "getElementById i (set_textContent p s d) = Some a"
proof -
  let ?keep = "filter (\<lambda>q. \<not> strict_prefix p q) (paths_of d)"
  have "find (matches (set_textContent p s d) (ById i)) ?keep = find (matches d (ById i)) ?keep"
    by (rule find_cong_set) (simp add: elem_at_set_textContent)
  also have "\<dots> = Some a"
    using assms(1) unfolding getElementById_def querySelector_def
    by (rule find_filter_Some) (rule assms(2))
  finally show ?thesis
    by (simp add: getElementById_def querySelector_def paths_of_set_textContent)
qed

lemma getElementById_set_button:
  assumes "getElementById i d = Some a" "\<not> strict_prefix p a"
  shows "getElementById i (set_button p off x y d) = Some a"
  unfolding set_button_def using assms by (simp add: getElementById_set_textContent)

text \<open>No control of a laid out document lies inside another.\<close>

lemma laid_out_not_inside:
  assumes "laid_out cs d" "a \<in> set cs" "p \<in> set cs"
  shows "\<not> strict_prefix p a"
  using laid_out_parallel [OF assms(1,3,2)] by (cases "p = a") (auto dest: parallel_not_strict_prefix)

lemma getElementById_update_display:
  assumes "getElementById i (doc w) = Some a" "\<And>p. p \<in> set (controls (this w)) \<Longrightarrow> \<not> strict_prefix p a"
  shows "getElementById i (doc (update_display w)) = Some a"
  using assms
  by (simp add: update_display_def updateNavButtons_def updateProgressBar_def
      updateSlideDisplay_def Let_def getElementById_set_button getElementById_set_textContent
      in_controls split: option.splits)

lemma getElementById_new_Presentation:
  assumes "markup_ok d" "getElementById i d = Some a" "a \<in> set (controls (new_object d))"
  shows "getElementById i (doc (new_Presentation d ls)) = Some a"
proof -
  let ?w = "\<lparr>this = new_object d, doc = d, listeners = ls,
      touch = \<lparr>startX = Fin 0, startY = Fin 0, endX = Fin 0, endY = Fin 0\<rparr>\<rparr>"
  have beside: "\<not> strict_prefix p a" if "p \<in> set (controls (new_object d))" for p
    using assms(1,3) that unfolding markup_ok_def by (rule laid_out_not_inside)
  then have "getElementById i (doc (update_display ?w)) = Some a"
    by (intro getElementById_update_display) (simp_all add: assms(2))
  then show ?thesis
    unfolding new_Presentation_def
    by (simp add: doc_init getElementById_set_textContent beside in_controls split: option.splits)
qed

text \<open>An identifier that the markup does not have is not found later either.\<close>

lemma getElementById_None:
  "getElementById i d = None \<longleftrightarrow> (\<forall>a e. elem_at d a = Some e \<longrightarrow> i = [] \<or> elem_id e \<noteq> i)"
  by (auto simp: getElementById_def querySelector_def find_None_iff split: option.splits)

lemma getElementById_None_keeps:
  assumes "keeps_ids d d'" "getElementById i d = None"
  shows "getElementById i d' = None"
  unfolding getElementById_None
proof (intro allI impI)
  fix a e
  assume "elem_at d' a = Some e"
  from keepsD [OF assms(1) this] assms(2) show "i = [] \<or> elem_id e \<noteq> i"
    by (auto simp: getElementById_None)
qed

lemma keeps_new_Presentation:
  assumes "untouched f"
  shows "keeps f d (doc (new_Presentation d ls))"
proof -
  let ?w = "\<lparr>this = new_object d, doc = d, listeners = ls,
      touch = \<lparr>startX = Fin 0, startY = Fin 0, endX = Fin 0, endY = Fin 0\<rparr>\<rparr>"
  have u: "keeps f d (doc (update_display ?w))"
    using keeps_update_display [OF assms, of ?w] by simp
  then have "keeps f d (set_textContent p s (doc (update_display ?w)))" for p s
    by (rule keeps_trans) (rule keeps_set_textContent)
  with u show ?thesis by (simp add: new_Presentation_def doc_init split: option.splits)
qed

section \<open>The handlers of the buttons\<close>

text \<open>
  The state in which the buttons work as the constructor left them: the
  display is in step, the listeners are those of the constructor and the
  object still refers to the buttons that the markup names.
\<close>

definition buttons_of :: "node \<Rightarrow> world \<Rightarrow> bool" where
  "buttons_of d w \<longleftrightarrow>
     shown_ok w \<and> wired_as d w \<and>
     prevBtn (this w) = getElementById ''prevBtn'' d \<and>
     nextBtn (this w) = getElementById ''nextBtn'' d"

lemma buttons_ofD:
  assumes "buttons_of d w"
  shows "shown_ok w" "listeners w = listeners (new_Presentation d [])"
    "prevBtn (this w) = getElementById ''prevBtn'' d" "nextBtn (this w) = getElementById ''nextBtn'' d"
  using assms by (simp_all add: buttons_of_def wired_as_def)

lemma buttons_new_object [simp]:
  "prevBtn (new_object d) = getElementById ''prevBtn'' d"
  "nextBtn (new_object d) = getElementById ''nextBtn'' d"
  by (simp_all add: new_object_def)

lemma buttons_reachable:
  assumes "markup_ok d" "reachable d pg"
  shows "page_holds (buttons_of d) d pg"
  using assms(2)
  by (rule page_holds_reachable [rotated -1])
    (simp_all add: buttons_of_def wired_as_def shown_okD shown_ok_safe shown_ok_updateSlideDisplay
      shown_ok_body_class shown_ok_new_Presentation wired_goToSlide wired_updateSlideDisplay
      wired_new_Presentation this_goToSlide assms(1))

text \<open>The listeners that the constructor adds for a click on each button.\<close>

lemma click_new_Presentation:
  assumes "distinct (controls (new_object d))"
  shows "getElementById ''nextBtn'' d = Some p \<Longrightarrow>
           map callback (filter (\<lambda>l. on_target l = Element p \<and> on_event l = ''click'')
             (listeners (new_Presentation d []))) = [NextBtnClick]"
    "getElementById ''prevBtn'' d = Some p \<Longrightarrow>
           map callback (filter (\<lambda>l. on_target l = Element p \<and> on_event l = ''click'')
             (listeners (new_Presentation d []))) = [PrevBtnClick]"
  using distinct_controls(1) [OF assms]
  by (auto simp: new_Presentation_def init_def addTouchSupport_def addEventListener_def Let_def
      split: option.splits)

text \<open>
  The handlers that the load handler assigns; they depend on the document
  and on the handlers that were there, and on nothing else of the page.
\<close>

lemma onclick_store_world [simp]: "onclick (store_world w pg) = onclick pg"
  by (simp add: store_world_def)

lemma document_store_world [simp]: "document (store_world w pg) = doc w"
  by (simp add: store_world_def)

lemma onclick_init_task:
  assumes "document pg = d" "registered pg = []" "onclick pg = []"
  shows "onclick (init_task pg) = onclick (loaded_page d)"
  using assms
  by (simp add: loaded_page_def DOMContentLoaded_def load_page_def init_task_def Let_def
      set_onclick_def split: option.splits)

lemma onclick_run_onclick [simp]: "onclick (run_onclick p pg) = onclick pg"
  by (simp add: run_onclick_def split: option.splits onclick_handler.splits)

lemma onclick_page_click [simp]: "onclick (page_click p pg) = onclick pg"
  by (simp add: page_click_def split: option.splits)

lemma present_run_onclick [simp]:
  "window_presentation (run_onclick p pg) = None \<longleftrightarrow> window_presentation pg = None"
  by (simp add: run_onclick_def split: option.splits onclick_handler.splits)

lemma present_page_click [simp]:
  "window_presentation (page_click p pg) = None \<longleftrightarrow> window_presentation pg = None"
  by (simp add: page_click_def split: option.splits)

text \<open>Apart from the timer of the load handler no step touches the handlers.\<close>

lemma onclick_page_step:
  assumes "InitTask \<notin> set (timers pg) \<or> ev \<noteq> TimerFires"
  shows "onclick (page_step ev pg) = onclick pg"
    "window_presentation (page_step ev pg) = None \<longleftrightarrow> window_presentation pg = None"
proof -
  have "onclick (page_step ev pg) = onclick pg \<and>
      (window_presentation (page_step ev pg) = None \<longleftrightarrow> window_presentation pg = None)"
  proof (cases "(ev, pg)" rule: page_step.cases)
    case (1 pg')
    with assms show ?thesis
      by (cases "timers pg"; cases "hd (timers pg)") (auto simp: if_presentation_def split: option.splits)
  qed simp_all
  then show "onclick (page_step ev pg) = onclick pg"
    "window_presentation (page_step ev pg) = None \<longleftrightarrow> window_presentation pg = None"
    by simp_all
qed

definition onclick_set :: "node \<Rightarrow> page \<Rightarrow> bool" where
  "onclick_set d pg \<longleftrightarrow>
     onclick pg = (if window_presentation pg = None then [] else onclick (loaded_page d))"

lemma onclick_reachable:
  assumes "reachable d pg"
  shows "onclick_set d pg"
  using assms
proof induction
  case loaded
  show ?case by (simp add: onclick_set_def DOMContentLoaded_def load_page_def)
next
  case (step pg ev)
  note held = wired_reachable [OF step.hyps]
  show ?case
  proof (cases "window_presentation pg = None \<and> ev = TimerFires")
    case True
    with held have pg: "document pg = d" "registered pg = []" "timers pg = [InitTask]"
      by (simp_all add: page_holds_def)
    with True step.IH have "onclick (page_step ev pg) = onclick (loaded_page d)"
      by (simp add: onclick_init_task onclick_set_def)
    with True pg show ?thesis by (simp add: onclick_set_def init_task_this)
  next
    case False
    with held have "InitTask \<notin> set (timers pg) \<or> ev \<noteq> TimerFires"
      by (auto simp: page_holds_def)
    from onclick_page_step [OF this] step.IH show ?thesis by (simp add: onclick_set_def)
  qed
qed

text \<open>The handlers after the load, on a markup that follows the host contract.\<close>

lemma onclick_loaded_page:
  assumes "markup_ok d"
  shows "getElementById ''nextBtn'' d = Some p \<Longrightarrow> map_of (onclick (loaded_page d)) p = Some NextOnclick"
    "getElementById ''prevBtn'' d = Some p \<Longrightarrow> map_of (onclick (loaded_page d)) p = Some PrevOnclick"
proof -
  let ?d = "doc (new_Presentation d [])"
  have found: "getElementById i ?d = Some a"
    if "getElementById i d = Some a" "a \<in> set (controls (new_object d))" for i a
    using assms that by (rule getElementById_new_Presentation)
  have diff: "getElementById ''prevBtn'' d = Some a \<Longrightarrow> getElementById ''nextBtn'' d \<noteq> Some a" for a
    using distinct_controls(1) [of "new_object d" a] assms
    by (simp add: markup_ok_def laid_out_def)
  have onclick: "onclick (loaded_page d) =
      (case getElementById ''nextBtn'' ?d of
         Some q \<Rightarrow> AList.update q NextOnclick
       | None \<Rightarrow> id)
      (case getElementById ''prevBtn'' ?d of Some q \<Rightarrow> [(q, PrevOnclick)] | None \<Rightarrow> [])"
    by (simp add: loaded_page_def DOMContentLoaded_def load_page_def init_task_def Let_def
        set_onclick_def split: option.splits)
  show "map_of (onclick (loaded_page d)) p = Some NextOnclick" if "getElementById ''nextBtn'' d = Some p"
    using found [OF that] that by (simp add: onclick in_controls update_conv')
  show "map_of (onclick (loaded_page d)) p = Some PrevOnclick" if p: "getElementById ''prevBtn'' d = Some p"
  proof (cases "getElementById ''nextBtn'' d")
    case None
    have "getElementById ''nextBtn'' ?d = None"
      by (rule getElementById_None_keeps [OF keeps_new_Presentation]) (simp_all add: None)
    with found [OF p] p show ?thesis by (simp add: onclick in_controls)
  next
    case (Some q)
    with diff [OF p] have "q \<noteq> p" by auto
    with found [OF p] found [OF Some] p Some show ?thesis
      by (simp add: onclick in_controls update_conv')
  qed
qed

section \<open>A click on a button\<close>

text \<open>
  What a reachable page knows of a button: the element is there, it is
  disabled exactly at its end of the deck, one listener of the constructor
  and one handler of the page script wait for a click on it.
\<close>

lemma button_state:
  assumes "markup_ok d" "reachable d pg" "window_presentation pg = Some t"
  shows "getElementById ''nextBtn'' d = Some p \<Longrightarrow>
           \<exists>e. elem_at (document pg) p = Some e \<and> (disabled e \<longleftrightarrow> int_of (currentSlide t) = 10) \<and>
               click_listeners p pg = [NextBtnClick] \<and> map_of (onclick pg) p = Some NextOnclick"
    and "getElementById ''prevBtn'' d = Some p \<Longrightarrow>
           \<exists>e. elem_at (document pg) p = Some e \<and> (disabled e \<longleftrightarrow> int_of (currentSlide t) = 1) \<and>
               click_listeners p pg = [PrevBtnClick] \<and> map_of (onclick pg) p = Some PrevOnclick"
proof -
  define w where "w = world_of t pg"
  from buttons_reachable [OF assms(1,2)] assms(3) have "buttons_of d w"
    by (simp add: page_holds_def w_def)
  note b = buttons_ofD [OF this]
  from page_ok_reachable [OF assms(2)] assms(3) have ten: "totalSlides t = Fin 10"
    by (simp add: page_ok_Some)
  from assms(1) have dist: "distinct (controls (new_object d))"
    by (simp add: markup_ok_def laid_out_def)
  from onclick_reachable [OF assms(2)] assms(3) have oc: "onclick pg = onclick (loaded_page d)"
    by (simp add: onclick_set_def)
  from b(2) have ls: "registered pg = listeners (new_Presentation d [])"
    by (simp add: w_def world_of_def)
  show "\<exists>e. elem_at (document pg) p = Some e \<and> (disabled e \<longleftrightarrow> int_of (currentSlide t) = 10) \<and>
      click_listeners p pg = [NextBtnClick] \<and> map_of (onclick pg) p = Some NextOnclick"
    if p: "getElementById ''nextBtn'' d = Some p"
  proof -
    from b(1,4) p have "view_at (doc w) p = Some (next_control (abs_ctl w))"
      by (simp add: shown_ok_def display_synced_def Let_def)
    then show ?thesis
      using ten click_new_Presentation(1) [OF dist p] onclick_loaded_page(1) [OF assms(1) p]
      by (auto simp: view_at_def next_control_def w_def world_of_def click_listeners_def oc ls
          split: option.splits if_splits)
  qed
  show "\<exists>e. elem_at (document pg) p = Some e \<and> (disabled e \<longleftrightarrow> int_of (currentSlide t) = 1) \<and>
      click_listeners p pg = [PrevBtnClick] \<and> map_of (onclick pg) p = Some PrevOnclick"
    if p: "getElementById ''prevBtn'' d = Some p"
  proof -
    from b(1,3) p have "view_at (doc w) p = Some (prev_control (abs_ctl w))"
      by (simp add: shown_ok_def display_synced_def Let_def)
    then show ?thesis
      using click_new_Presentation(2) [OF dist p] onclick_loaded_page(2) [OF assms(1) p]
      by (auto simp: view_at_def prev_control_def w_def world_of_def click_listeners_def oc ls
          split: option.splits if_splits)
  qed
qed

text \<open>One click: the listener and the handler both run, unless the button is disabled.\<close>

lemma click_next_position:
  assumes "markup_ok d" "reachable d pg" "getElementById ''nextBtn'' d = Some p"
    "page_position pg = Some k"
  shows "page_position (page_step (Input (Element p) Click) pg) = Some (min (k + 2) 10)"
proof -
  from assms(4) obtain t where t: "window_presentation pg = Some t" "k = int_of (currentSlide t)"
    by (auto simp: page_position_def)
  define w where "w = world_of t pg"
  from page_ok_reachable [OF assms(2)] t(1) have ok: "position_ok w" and ten: "deck_size w = 10"
    by (simp_all add: page_ok_Some w_def)
  from button_state(1) [OF assms(1,2) t(1) assms(3)] obtain e
    where e: "elem_at (document pg) p = Some e" "disabled e \<longleftrightarrow> k = 10"
      "click_listeners p pg = [NextBtnClick]" "map_of (onclick pg) p = Some NextOnclick"
    by (auto simp: t(2))
  show ?thesis
  proof (cases "disabled e")
    case True
    with e assms(4) show ?thesis by (simp add: page_click_def)
  next
    case False
    have "page_position (page_step (Input (Element p) Click) pg) =
        Some (position (nextSlide (nextSlide w)))"
      using e False t(1)
      by (simp add: page_click_def run_onclick_def if_presentation_Some fst_dispatch_click
          page_position_def w_def)
    also have "position (nextSlide (nextSlide w)) = min (position w + 2) 10"
      using ok position_ok_nextSlide [OF ok] ten by (simp add: position_nextSlide)
    finally show ?thesis by (simp add: t(2) w_def world_of_def)
  qed
qed

lemma click_previous_position:
  assumes "markup_ok d" "reachable d pg" "getElementById ''prevBtn'' d = Some p"
    "page_position pg = Some k"
  shows "page_position (page_step (Input (Element p) Click) pg) = Some (max (k - 2) 1)"
proof -
  from assms(4) obtain t where t: "window_presentation pg = Some t" "k = int_of (currentSlide t)"
    by (auto simp: page_position_def)
  define w where "w = world_of t pg"
  from page_ok_reachable [OF assms(2)] t(1) have ok: "position_ok w"
    by (simp_all add: page_ok_Some w_def)
  from button_state(2) [OF assms(1,2) t(1) assms(3)] obtain e
    where e: "elem_at (document pg) p = Some e" "disabled e \<longleftrightarrow> k = 1"
      "click_listeners p pg = [PrevBtnClick]" "map_of (onclick pg) p = Some PrevOnclick"
    by (auto simp: t(2))
  show ?thesis
  proof (cases "disabled e")
    case True
    with e assms(4) show ?thesis by (simp add: page_click_def)
  next
    case False
    have "page_position (page_step (Input (Element p) Click) pg) =
        Some (position (previousSlide (previousSlide w)))"
      using e False t(1)
      by (simp add: page_click_def run_onclick_def if_presentation_Some fst_dispatch_click
          page_position_def w_def)
    also have "position (previousSlide (previousSlide w)) = max (position w - 2) 1"
      using ok position_ok_previousSlide [OF ok] by (simp add: position_previousSlide)
    finally show ?thesis by (simp add: t(2) w_def world_of_def)
  qed
qed

section \<open>Properties of the buttons\<close>

text \<open>
  C6 (safety). On every markup that follows the host contract and on every
  page that the script can reach from it, clicking the next button \<open>j\<close>
  times moves the position \<open>2 * j\<close> slides forward, up to the last slide: the
  listener of the constructor and the \<open>onclick\<close> handler of the page script
  both run at every click, so from the first slide the button shows the
  slides 3, 5, 7, 9 and 10 and never the slides 2, 4, 6 and 8.
\<close>

theorem next_button_skips_slides:
  assumes "markup_ok d" "reachable d pg" "getElementById ''nextBtn'' d = Some p"
    "page_position pg = Some k"
  shows "page_position (page_run (replicate j (Input (Element p) Click)) pg) =
           Some (min (k + 2 * int j) 10)"
  using assms(2,4)
proof (induction j arbitrary: pg k)
  case 0
  from page_ok_position [OF page_ok_reachable [OF "0.prems"(1)] "0.prems"(2)]
  show ?case by (simp add: page_run_def "0.prems"(2))
next
  case (Suc j)
  let ?pg = "page_step (Input (Element p) Click) pg"
  have "page_position ?pg = Some (min (k + 2) 10)"
    using assms(1) Suc.prems(1) assms(3) Suc.prems(2) by (rule click_next_position)
  from Suc.IH [OF reachable.step [OF Suc.prems(1)] this]
  show ?case by (simp add: page_run_Cons min_def)
qed

theorem next_button_skips_slides_witness:
  "page_position (loaded_page sample_page) = Some 1 \<and>
   page_position (page_run (replicate 3 (Input (Element [5]) Click)) (loaded_page sample_page)) =
     Some 7"
proof -
  have "reachable sample_page (loaded_page sample_page)"
    unfolding loaded_page_def by (intro reachable.intros)
  moreover have "getElementById ''nextBtn'' sample_page = Some [5]"
    by code_simp
  moreover have "page_position (loaded_page sample_page) = Some 1"
    by (simp add: sample_loaded_correct sample_loaded_def page_position_def sample_world_def)
  ultimately show ?thesis
    using next_button_skips_slides [of sample_page "loaded_page sample_page" "[5]" 1 3]
      sample_markup_ok by simp
qed

text \<open>
  C19 (safety). In the same way, clicking the previous button \<open>j\<close> times
  moves the position \<open>2 * j\<close> slides back, down to the first slide.
\<close>

theorem previous_button_skips_slides:
  assumes "markup_ok d" "reachable d pg" "getElementById ''prevBtn'' d = Some p"
    "page_position pg = Some k"
  shows "page_position (page_run (replicate j (Input (Element p) Click)) pg) =
           Some (max (k - 2 * int j) 1)"
  using assms(2,4)
proof (induction j arbitrary: pg k)
  case 0
  from page_ok_position [OF page_ok_reachable [OF "0.prems"(1)] "0.prems"(2)]
  show ?case by (simp add: page_run_def "0.prems"(2))
next
  case (Suc j)
  let ?pg = "page_step (Input (Element p) Click) pg"
  have "page_position ?pg = Some (max (k - 2) 1)"
    using assms(1) Suc.prems(1) assms(3) Suc.prems(2) by (rule click_previous_position)
  from Suc.IH [OF reachable.step [OF Suc.prems(1)] this]
  show ?case by (simp add: page_run_Cons max_def)
qed

theorem previous_button_skips_slides_witness:
  "page_position
     (page_run (replicate 1 (Input (Element [2]) Click))
        (page_step (Input (Element [5]) Click) (loaded_page sample_page))) = Some 1"
proof -
  let ?pg = "page_step (Input (Element [5]) Click) (loaded_page sample_page)"
  have start: "reachable sample_page (loaded_page sample_page)"
    unfolding loaded_page_def by (intro reachable.intros)
  then have "reachable sample_page ?pg" by (rule reachable.step)
  moreover have "getElementById ''prevBtn'' sample_page = Some [2]"
    by code_simp
  moreover have "getElementById ''nextBtn'' sample_page = Some [5]"
    by code_simp
  moreover have "page_position (loaded_page sample_page) = Some 1"
    by (simp add: sample_loaded_correct sample_loaded_def page_position_def sample_world_def)
  ultimately show ?thesis
    using previous_button_skips_slides [of sample_page ?pg "[2]" 3 1] sample_markup_ok
      click_next_position [OF sample_markup_ok start, of "[5]" 1]
    by simp
qed

end
