(* ===== verification/LiveRegion.thy ===== *)
theory LiveRegion
  imports Clicks Announcement
begin

text \<open>
  The number of live regions. \<open>announceSlideChange\<close> (lines 198 to 216 of
  \<open>src/app.js\<close>) creates the element with the \<open>id\<close> \<open>slide-announcement\<close>
  only when the document has none, and no other update of the program adds
  an element: however long the page is used, one live region is all that the
  script adds to the markup.
\<close>

section \<open>The elements with the identifier of the live region\<close>

definition live_regions :: "node \<Rightarrow> path list" where
  "live_regions d = querySelectorAll (ById ''slide-announcement'') d"

lemma live_regions_Nil: "live_regions d = [] \<longleftrightarrow> getElementById ''slide-announcement'' d = None"
  by (auto simp: live_regions_def querySelectorAll_def filter_empty_conv getElementById_None
      split: option.splits)

lemma live_regions_upd_elem [simp]:
  assumes "\<And>e. elem_id (g e) = elem_id e"
  shows "live_regions (upd_elem p g d) = live_regions d"
proof -
  have "matches (upd_elem p g d) (ById i) q = matches d (ById i) q" for i q
    by (cases "elem_at d p") (simp_all add: elem_at_upd_elem assms)
  then have "matches (upd_elem p g d) (ById i) = matches d (ById i)" for i by (intro ext)
  then show ?thesis by (simp add: live_regions_def querySelectorAll_def)
qed

lemma live_regions_fold_upd_elem [simp]:
  "(\<And>e. elem_id (g e) = elem_id e) \<Longrightarrow> live_regions (fold (\<lambda>p. upd_elem p g) ps d) = live_regions d"
  by (induction ps arbitrary: d) simp_all

lemma live_regions_set_textContent:
  "live_regions (set_textContent p s d) = filter (\<lambda>q. \<not> strict_prefix p q) (live_regions d)"
proof -
  let ?keep = "filter (\<lambda>q. \<not> strict_prefix p q) (paths_of d)"
  have "filter (matches (set_textContent p s d) (ById ''slide-announcement'')) ?keep =
      filter (matches d (ById ''slide-announcement'')) ?keep"
    by (rule filter_cong_set) (simp add: elem_at_set_textContent)
  then show ?thesis
    by (simp add: live_regions_def querySelectorAll_def paths_of_set_textContent conj_commute)
qed

text \<open>An update is quiet when it adds no live region.\<close>

definition quiet :: "node \<Rightarrow> node \<Rightarrow> bool" where
  "quiet d d' \<longleftrightarrow> length (live_regions d') \<le> length (live_regions d)"

lemma quiet_refl [simp]: "quiet d d"
  by (simp add: quiet_def)

lemma quiet_trans [trans]: "quiet d d' \<Longrightarrow> quiet d' d'' \<Longrightarrow> quiet d d''"
  by (simp add: quiet_def)

lemma quiet_set_textContent [simp]: "quiet d (set_textContent p s d)"
  by (simp add: quiet_def live_regions_set_textContent)

lemma quiet_upd_elem [simp]: "(\<And>e. elem_id (g e) = elem_id e) \<Longrightarrow> quiet d (upd_elem p g d)"
  by (simp add: quiet_def)

lemma quiet_after_set_textContent [simp]: "quiet d d' \<Longrightarrow> quiet d (set_textContent p s d')"
  by (erule quiet_trans) simp

lemma quiet_after_upd_elem [simp]:
  "quiet d d' \<Longrightarrow> (\<And>e. elem_id (g e) = elem_id e) \<Longrightarrow> quiet d (upd_elem p g d')"
  by (simp add: quiet_def)

lemma quiet_update_display: "quiet d (doc w) \<Longrightarrow> quiet d (doc (update_display w))"
  by (simp add: update_display_def updateNavButtons_def updateProgressBar_def
      updateSlideDisplay_def set_button_def Let_def split: option.splits)

lemma quiet_updateSlideDisplay: "quiet d (doc w) \<Longrightarrow> quiet d (doc (updateSlideDisplay w))"
  by (simp add: updateSlideDisplay_def split: option.splits)

lemma quiet_mark_active: "quiet (doc w) (doc (mark_active n w))"
  by (simp add: doc_mark_active quiet_def split: option.splits)

lemma quiet_new_Presentation: "quiet d (doc (new_Presentation d ls))"
  by (simp add: new_Presentation_def doc_init quiet_update_display split: option.splits)

section \<open>The announcement\<close>

text \<open>The one update that can add a live region adds it to a document that has none.\<close>

lemma live_regions_live_region:
  "length (live_regions (fst (live_region d))) \<le> max 1 (length (live_regions d))"
proof (cases "getElementById ''slide-announcement'' d")
  case None
  then have none: "live_regions d = []" by (simp add: live_regions_Nil)
  show ?thesis
  proof (cases d)
    case (Elem e ks)
    let ?d = "appendChild announcement_div d"
    let ?M = "matches ?d (ById ''slide-announcement'')"
    have "filter ?M (paths_of d) = filter (matches d (ById ''slide-announcement'')) (paths_of d)"
      by (rule filter_cong_set) (simp add: elem_at_appendChild_keep)
    with none have old: "filter ?M (paths_of d) = []"
      by (simp add: live_regions_def querySelectorAll_def)
    have "paths_of ?d = paths_of d @ [[child_count d]]"
      by (simp only: Elem paths_of_appendChild paths_of_announcement_div list.map child_count.simps)
    then have "live_regions ?d = filter ?M (paths_of d) @ filter ?M [[child_count d]]"
      by (simp only: live_regions_def querySelectorAll_def filter_append)
    then have "length (live_regions ?d) \<le> 1"
      unfolding old by (simp del: matches.simps)
    with None show ?thesis by (simp add: live_region_def)
  qed (use None in \<open>simp add: live_region_def\<close>)
qed (simp add: live_region_def)

lemma live_regions_announceSlideChange:
  "length (live_regions (doc (announceSlideChange w))) \<le> max 1 (length (live_regions (doc w)))"
  using live_regions_live_region [of "doc w"]
    quiet_set_textContent [of "fst (live_region (doc w))", unfolded quiet_def]
  unfolding announceSlideChange_live by (rule order_trans [rotated])

lemma live_regions_goToSlide:
  assumes "length (live_regions (doc w)) \<le> max 1 m"
  shows "length (live_regions (doc (goToSlide n w))) \<le> max 1 m"
proof -
  let ?u = "update_display (mark_active n w)"
  from quiet_update_display [OF quiet_mark_active [of w n]]
  have "length (live_regions (doc ?u)) \<le> length (live_regions (doc w))" by (simp add: quiet_def)
  with live_regions_announceSlideChange [of ?u] assms
  have "length (live_regions (doc (announceSlideChange ?u))) \<le> max 1 m"
    by (simp add: max_def split: if_splits)
  with assms show ?thesis by (simp add: goToSlide_halves refresh_display_def)
qed

section \<open>The invariant\<close>

definition few_regions :: "nat \<Rightarrow> world \<Rightarrow> bool" where
  "few_regions m w \<longleftrightarrow> wired w \<and> length (live_regions (doc w)) \<le> max 1 m"

lemma few_regions_reachable:
  assumes "reachable d pg"
  shows "page_holds (few_regions (length (live_regions d))) d pg"
  using assms
proof (rule page_holds_reachable [rotated -1])
  show "few_regions (length (live_regions d)) (new_Presentation d [])"
    using quiet_new_Presentation [of d "[]"]
    by (simp add: few_regions_def wired_new_Presentation quiet_def)
  show "few_regions (length (live_regions d)) (updateSlideDisplay w)"
    if "few_regions (length (live_regions d)) w" for w
    using that quiet_updateSlideDisplay [of "doc w" w]
    by (simp add: few_regions_def wired_updateSlideDisplay quiet_def)
  show "few_regions (length (live_regions d)) (goToSlide n w)"
    if "few_regions (length (live_regions d)) w" "safe_int n" for w n
    using that live_regions_goToSlide [of w "length (live_regions d)" n]
    by (simp add: few_regions_def wired_goToSlide)
qed (simp_all add: few_regions_def wiredD)

section \<open>Properties of the live region\<close>

text \<open>
  C15 (invariant). On every page that the script can reach, from whatever
  markup and after whatever events and calls, the document has at most one
  element with the \<open>id\<close> of the live region, or as many as the markup had:
  the region is created once and used again by every later announcement.
\<close>

theorem live_region_created_once:
  assumes "reachable d pg"
  shows "length (live_regions (document pg)) \<le> max 1 (length (live_regions d))"
proof (cases "window_presentation pg")
  case None
  with few_regions_reachable [OF assms] show ?thesis by (simp add: page_holds_def)
next
  case (Some t)
  with few_regions_reachable [OF assms] show ?thesis
    by (simp add: page_holds_def few_regions_def world_of_def)
qed

theorem live_region_created_once_witness:
  "live_regions sample_page = [] \<and>
   length (live_regions (document
     (page_run [Input Document (Key ''End''), Call Previous, Input (Element [5]) Click]
        (loaded_page sample_page)))) \<le> 1"
proof -
  have "reachable sample_page (page_run [Input Document (Key ''End''), Call Previous,
      Input (Element [5]) Click] (loaded_page sample_page))"
    unfolding loaded_page_def by (intro reachable_run reachable.intros)
  from live_region_created_once [OF this] sample_markup_live show ?thesis
    by (simp add: live_regions_def)
qed

end
