(* ===== verification/Interface.thy ===== *)
theory Interface
  imports Reachable
begin

text \<open>
  The programmatic interface \<open>window.presentationAPI\<close> (lines 282 to 288 of
  \<open>src/app.js\<close>) on the pages that the script can reach: the page as a
  whole, seen through its position, is the slide controller of the
  specification, and what \<open>getCurrentInfo\<close> returns is what the last call
  stored.
\<close>

section \<open>The page as a controller\<close>

text \<open>The controller that a page stands for, once its object exists.\<close>

definition abs_page :: "page \<Rightarrow> controller option" where
  "abs_page pg = map_option (\<lambda>t. abs_ctl (world_of t pg)) (window_presentation pg)"

lemma abs_page_None [simp]: "window_presentation pg = None \<Longrightarrow> abs_page pg = None"
  by (simp add: abs_page_def)

lemma abs_page_store_world [simp]: "abs_page (store_world w pg) = Some (abs_ctl w)"
  by (simp add: abs_page_def)

lemma abs_page_Some:
  "window_presentation pg = Some t \<Longrightarrow> abs_page pg = Some (abs_ctl (world_of t pg))"
  by (simp add: abs_page_def)

text \<open>A call on a page whose object exists is the method of the object.\<close>

lemma page_step_Call:
  assumes "page_ok pg" "window_presentation pg = Some t"
  shows "page_step (Call c) pg = store_world (perform c (world_of t pg)) pg"
  using assms by (simp add: page_ok_Some if_presentation_Some)

lemma abs_page_Call:
  assumes "page_ok pg"
  shows "abs_page (page_step (Call c) pg) = map_option (ctl_step c) (abs_page pg)"
proof (cases "window_presentation pg")
  case (Some t)
  with assms have "position_ok (world_of t pg)" by (simp add: page_ok_Some)
  then show ?thesis
    unfolding page_step_Call [OF assms Some] abs_page_Some [OF Some]
    by (simp add: abs_perform)
qed simp

section \<open>Properties of the interface\<close>

text \<open>
  C5 (refinement). On every page that the script can reach, from whatever
  markup, a sequence of calls of the interface with integer arguments is a
  run of the specified controller: the position and the size of the deck
  after the calls are those of the controller after the same commands. Before
  the object exists there is no controller and the calls leave none.
\<close>

theorem interface_refines_controller:
  assumes "reachable d pg"
  shows "abs_page (page_run (map Call cs) pg) = map_option (ctl_run cs) (abs_page pg)"
  using assms
proof (induction cs arbitrary: pg)
  case Nil
  show ?case by (simp add: page_run_def ctl_run_def [abs_def] option.map_ident)
next
  case (Cons c cs)
  have "abs_page (page_run (map Call (c # cs)) pg) =
      abs_page (page_run (map Call cs) (page_step (Call c) pg))"
    by (simp only: list.map page_run_Cons)
  also have "\<dots> = map_option (ctl_run cs) (abs_page (page_step (Call c) pg))"
    by (rule Cons.IH [OF reachable.step [OF Cons.prems]])
  also have "\<dots> = map_option (ctl_run (c # cs)) (abs_page pg)"
    unfolding abs_page_Call [OF page_ok_reachable [OF Cons.prems]]
    by (simp add: ctl_run_def [abs_def] option.map_comp comp_def)
  finally show ?case .
qed

theorem interface_refines_controller_witness:
  "abs_page (page_run (map Call [Next, GoTo 7, GoTo 11, Previous]) (loaded_page sample_page)) =
     Some \<lparr>pos = 6, count = 10\<rparr>"
proof -
  have "reachable sample_page (loaded_page sample_page)"
    unfolding loaded_page_def by (intro reachable.intros)
  moreover have "abs_page (loaded_page sample_page) = Some \<lparr>pos = 1, count = 10\<rparr>"
    by (simp add: sample_loaded_correct sample_loaded_def abs_page_def abs_ctl_def world_of_def
        sample_world_def)
  ultimately show ?thesis
    using interface_refines_controller [of sample_page "loaded_page sample_page"
        "[Next, GoTo 7, GoTo 11, Previous]"]
    by (simp add: ctl_run_def ctl_next_def ctl_previous_def ctl_goTo_def)
qed

text \<open>
  C31 (roundtrip). What is written through the interface is read back
  through it: after \<open>goToSlide(n)\<close> with \<open>1 \<le> n \<le> 10\<close> on a page whose
  object exists, \<open>getCurrentInfo()\<close> returns the position \<open>n\<close>, the total
  10 and the two flags of the first and the last slide.
\<close>

theorem goToSlide_getCurrentInfo:
  assumes "reachable d pg" "window_presentation pg \<noteq> None" "1 \<le> n" "n \<le> 10"
  shows "api_getCurrentInfo (page_step (Call (GoTo n)) pg) =
           Some (Some \<lparr>current = num n, total = Fin 10, isFirst = (n = 1), isLast = (n = 10)\<rparr>)"
proof -
  from assms(2) obtain t where t: "window_presentation pg = Some t" by blast
  note ok = page_ok_reachable [OF assms(1)]
  let ?w = "navigateToSlide (num n) (world_of t pg)"
  from ok t have w: "totalSlides (this (world_of t pg)) = num 10" "window_presentationAPI pg"
    by (simp_all add: page_ok_Some world_of_def)
  from assms(3,4) have "this ?w = (this (world_of t pg))\<lparr>currentSlide := num n\<rparr>"
    unfolding navigateToSlide_def by (intro this_goToSlide_in_range [OF w(1)])
  with w assms(3,4) show ?thesis
    unfolding page_step_Call [OF ok t] perform.simps
    by (simp add: api_getCurrentInfo_def getCurrentSlideInfo_def)
qed

theorem goToSlide_getCurrentInfo_witness:
  "api_getCurrentInfo (page_step (Call (GoTo 10)) (loaded_page sample_page)) =
     Some (Some \<lparr>current = Fin 10, total = Fin 10, isFirst = False, isLast = True\<rparr>)"
proof -
  have "reachable sample_page (loaded_page sample_page)"
    unfolding loaded_page_def by (intro reachable.intros)
  moreover have "window_presentation (loaded_page sample_page) \<noteq> None"
    by (simp add: sample_loaded_correct sample_loaded_def)
  ultimately show ?thesis
    using goToSlide_getCurrentInfo [of sample_page "loaded_page sample_page" 10] by simp
qed

end
