(* ===== verification/Spec2Isabelle.thy ===== *)
theory Spec2Isabelle
  imports Prelude JsNumber Dom Controller Presentation Refinement Display Page Slides References
    Announcement Reachable Propagation Clicks LiveRegion Interface
begin

text \<open>
  \<^bold>\<open>A verification development for the slide presentation controller
  \<open>src/app.js\<close>.\<close>

  \<^bold>\<open>The program.\<close> \<open>src/app.js\<close> is one class, \<open>Presentation\<close>, and the page
  script around it. The class keeps the current slide number and the total,
  and references to the elements of the host page it reads and writes: the
  slides, the previous and next buttons, the counter, the total display and
  the progress bar. \<open>goToSlide\<close> is the single transition: it checks the
  target against the bounds, moves the \<open>active\<close> class, stores the new
  position and refreshes every display, then announces the slide in a live
  region that it creates on first use. \<open>nextSlide\<close>, \<open>previousSlide\<close>,
  \<open>reset\<close>, \<open>navigateToSlide\<close>, the keyboard handler and the swipe handler
  all end in \<open>goToSlide\<close>. The page script constructs the presentation 100 ms
  after \<open>DOMContentLoaded\<close>, binds the two buttons a second time, publishes
  \<open>window.presentationAPI\<close>, and refreshes the counter when the tab becomes
  visible or the window is resized.

  \<^bold>\<open>The theories\<close>, in the order of their imports.
  \<^item> \<open>Prelude\<close>: the lemma collections \<open>js_arith\<close>, \<open>frame\<close> and \<open>wf_keep\<close>,
    paths into a tree, decimal numerals (\<open>decimal\<close>, with the reader
    \<open>undecimal\<close> that makes printing injective) and the digit length \<open>ilen\<close>.
  \<^item> \<open>JsNumber\<close>: the numbers of the program. A finite double is the rational
    it denotes; \<open>fl\<close> rounds to the nearest double, \<open>to_double\<close> adds
    overflow; \<open>js_add\<close>, \<open>js_sub\<close>, \<open>js_mul\<close>, \<open>js_div\<close>, \<open>Math_abs\<close>,
    \<open>js_lt\<close>, \<open>js_gt\<close>, \<open>js_strict_eq\<close> are the operators the source applies,
    on finite numbers, \<open>NaN\<close> and the infinities; \<open>Number_toString\<close> is the
    conversion that template literals and \<open>textContent\<close> assignments perform.
    The lemmas show that integers up to \<open>2\<^sup>5\<^sup>3\<close> are computed exactly, that
    rounding is monotone on the non-negative numbers and moves a number by at
    most half a unit in its last place, and from these the properties of
    \<open>percent\<close>, the value of \<open>(currentSlide / totalSlides) * 100\<close>.
  \<^item> \<open>Dom\<close>: the body of the host page as a tree of elements and text
    nodes. An element reference of the source is a path; \<open>elem_at\<close> and
    \<open>textContent\<close> read, \<open>upd_elem\<close>, \<open>set_textContent\<close> and \<open>appendChild\<close>
    write; \<open>querySelector\<close>, \<open>querySelectorAll\<close> and \<open>getElementById\<close> search
    in tree order with the selectors the source uses. The lemmas say what each
    write leaves unchanged at another path, in particular at a \<open>parallel\<close>
    one, and which paths exist after it.
  \<^item> \<open>Presentation\<close>: the class. The record \<open>presentation\<close> holds its
    fields, \<open>world\<close> the state its methods act on (the object, the document,
    the registered listeners, the variables of the touch closure). There is
    one definition per method, from \<open>new_Presentation\<close> and \<open>init\<close> to
    \<open>reset\<close>, and \<open>dispatch\<close> delivers an event to the listeners registered
    for it. The lemmas give the position after each method, show that
    \<open>position_ok\<close> (an integral position between 1 and the total) is kept by
    every method and event, and that every callback is a \<open>goToSlide\<close> with an
    integral target (\<open>dispatch_preserves\<close>), from which the invariants of the
    later theories follow.
  \<^item> \<open>Controller\<close>: the bounded counter of the specification and the
    display it derives from the position, written from the specification.
  \<^item> \<open>Refinement\<close>: the abstraction \<open>abs_ctl\<close> from the state of the program
    to the counter, and the lemmas that each navigation method is the
    operation of the same name.
  \<^item> \<open>Display\<close>: what the page shows. \<open>laid_out\<close> is the layout the
    program relies on (the controls beside each other, none inside another or
    inside the live region); \<open>display_synced\<close> says that the buttons, the
    counter and the bar show what the specification derives from the position.
    The lemmas follow one write of the document after the other through
    \<open>goToSlide\<close>, split into \<open>mark_active\<close> and \<open>refresh_display\<close>; \<open>keeps\<close>
    relates the document before and after an update that gives no element a
    new \<open>id\<close> or attribute.
  \<^item> \<open>Page\<close>: the page script. The record \<open>page\<close> holds
    \<open>window.presentation\<close> as an option, the document, the listeners, the
    \<open>onclick\<close> handlers, whether \<open>window.presentationAPI\<close> is defined, and the
    waiting timers. \<open>page_step\<close> is one event of the page: a timer firing, a
    visibility change, a resize, a user input, or a call of the programmatic
    interface by another script (\<open>Call\<close>, with \<open>perform\<close> and \<open>api_call\<close>;
    a call made before the interface is defined fails in the caller and
    leaves the page as it is).
  \<^item> \<open>Slides\<close>: which slide carries the class \<open>active\<close>. \<open>deck_ok\<close> says
    that no slide and no element with a \<open>data-slide\<close> attribute lies inside a
    control or the live region, \<open>active_ok\<close> that the active slides are those
    that the selector of the position finds, \<open>numbered\<close> that the selector of
    every position finds a slide. The lemmas show that \<open>goToSlide\<close> moves the
    class, that no other method touches it, and that the selector
    \<open>[data-slide="n"]\<close> finds the same element before and after every update.
  \<^item> \<open>Announcement\<close>: the live region of \<open>announceSlideChange\<close>: which
    element it is, found or created, and the text it holds afterwards.
  \<^item> \<open>References\<close>: the element references stored in the object.
    \<open>refs_ok\<close> says that each designates an element that still matches the
    selector it was found by; \<open>sound\<close> collects what holds of the state of a
    page that follows the host contract (display in step, deck of the markup,
    typed references, the fields the constructor has set).
  \<^item> \<open>Reachable\<close>: the pages reachable from a markup as an inductive
    predicate, proved equal to the results of \<open>page_run\<close>, and
    \<open>page_holds_reachable\<close>: a property of the object holds in every
    reachable page once the object exists, when the constructor establishes
    it and \<open>goToSlide\<close>, \<open>updateSlideDisplay\<close> and the class added to the body
    keep it. \<open>wired\<close> is such a property: one \<open>keydown\<close> listener is
    registered on the document, so that the keyboard reaches every slide.
  \<^item> \<open>Propagation\<close>: the bubbling of an event from an element through its
    ancestors to the document, as the sequence of deliveries along the path
    (\<open>bubble\<close>, \<open>page_bubble\<close>). The lemmas show which callbacks run: a key
    pressed anywhere reaches the keyboard handler once, a touch inside the
    container reaches the swipe handler, and no touch suppresses the default
    action.
  \<^item> \<open>Clicks\<close>: the two buttons from the load on. \<open>getElementById\<close> finds
    the buttons again in the document that the constructor has updated, so
    the page script assigns its \<open>onclick\<close> handlers to the elements that carry
    the listeners of \<open>init\<close>; \<open>onclick_set\<close> says that nothing changes the
    handlers afterwards and \<open>buttons_of\<close> that the object keeps its buttons.
    The lemmas give the position after a click on every reachable page.
  \<^item> \<open>LiveRegion\<close>: the elements with the \<open>id\<close> of the live region
    (\<open>live_regions\<close>); \<open>quiet\<close> relates the document before and after an
    update that adds none. Only the first announcement adds one.
  \<^item> \<open>Interface\<close>: \<open>abs_page\<close> reads the controller of the specification
    off a page; calls of the interface on a reachable page are steps of
    that controller, and \<open>getCurrentInfo\<close> returns what the last call stored.
  \<^item> This theory: the methods of the object refine the counter of the
    specification, the scenario of the specification on the sample page, and
    the invariants of the reachable pages: the display shows the position,
    exactly one slide, the one numbered with the position, is active, and
    the references are typed.

  \<^bold>\<open>The sample page.\<close> \<open>sample_page\<close> is a markup that follows the host
  contract, with ten titled slides. \<open>sample_world\<close> and \<open>sample_loaded\<close> are
  written out as the states after construction and after loading;
  \<open>sample_loaded_correct\<close> proves that running the model on the markup gives
  exactly that state. The theorems are instantiated on them.

  \<^bold>\<open>Bounds and fuel.\<close> \<open>shortest\<close> searches digit strings of length 1 to 17;
  17 significant digits identify every double, and \<open>shortest_fuel_suffices\<close>
  proves that the fuel is enough for the integers up to \<open>2\<^sup>5\<^sup>2\<close>, which
  \<open>Number_toString\<close> prints as their decimal numerals (up to \<open>2\<^sup>5\<^sup>2\<close> both
  neighbours that \<open>digits_at\<close> tests are doubles). Exactness of integer
  arithmetic is proved for absolute values up to \<open>2\<^sup>5\<^sup>3\<close>, the bound beyond
  which doubles skip integers, and the properties of the percentage for decks
  of up to \<open>2\<^sup>5\<^sup>3\<close> slides. Both timers of the script wait 100 ms, so the
  timer queue is a list served in order; the events between two timers are
  arbitrary.

  \<^bold>\<open>Not modelled.\<close> \<open>console.log\<close> output and \<open>window.debugNavigation\<close>,
  which only logs; negative zero; values other than numbers as arguments of
  the programmatic interface (the calls among the events of a page pass
  integers; what \<open>goToSlide\<close> does with \<open>NaN\<close> and with a fraction is shown
  on the object, in \<open>Presentation\<close>); the capturing phase of event propagation and
  \<open>stopPropagation\<close>, which the program does not use; the visual effect of
  CSS classes and styles. \<open>page_step\<close> delivers an input at one target;
  the propagation of an input is the run of \<open>page_bubble\<close>, so every
  invariant of the reachable pages holds for it.
\<close>

section \<open>The class implements the controller of the specification\<close>

text \<open>
  The abstraction reads the position and the deck size off the object. The
  commands of the programmatic interface (\<open>nextSlide\<close>, \<open>previousSlide\<close>,
  \<open>goToSlide(n)\<close>, \<open>reset\<close> of \<open>window.presentationAPI\<close>) are run on the
  object by \<open>perform\<close>.
\<close>

text \<open>
  C4 (refinement). Every sequence of commands of the programmatic interface,
  run on a well-formed object, takes its abstraction through the same
  sequence of steps of the specified controller; the controller's invariant
  holds after it.
\<close>

theorem presentation_refines_controller:
  assumes "position_ok w"
  shows "abs_ctl (fold perform cmds w) = ctl_run cmds (abs_ctl w) \<and>
         ctl_ok (abs_ctl (fold perform cmds w))"
  using assms by (simp add: abs_fold_perform ctl_ok_run ctl_ok_abs)

theorem presentation_refines_controller_witness:
  "position_ok sample_world \<and>
   abs_ctl (fold perform [Next, Next, GoTo 999, Previous, Reset, GoTo 7] sample_world) =
     \<lparr>pos = 7, count = 10\<rparr>"
  using presentation_refines_controller
    [of sample_world "[Next, Next, GoTo 999, Previous, Reset, GoTo 7]"]
  by (simp add: ctl_run_def abs_ctl_def ctl_next_def ctl_previous_def ctl_reset_def ctl_goTo_def)

text \<open>
  C37 (refinement). The snapshot returned by \<open>getCurrentSlideInfo\<close> is the
  snapshot of the specified controller: the position, the total and the two
  flags for the first and the last slide.
\<close>

theorem getCurrentSlideInfo_refines:
  assumes "position_ok w"
  shows "getCurrentSlideInfo w =
     \<lparr>current = num (info_position (ctl_getInfo (abs_ctl w))),
      total = num (info_total (ctl_getInfo (abs_ctl w))),
      isFirst = info_isFirst (ctl_getInfo (abs_ctl w)),
      isLast = info_isLast (ctl_getInfo (abs_ctl w))\<rparr>"
  using assms
  by (auto elim!: position_okE simp: getCurrentSlideInfo_def ctl_getInfo_def abs_ctl_def)

theorem getCurrentSlideInfo_refines_witness:
  "getCurrentSlideInfo sample_world =
     \<lparr>current = Fin 1, total = Fin 10, isFirst = True, isLast = False\<rparr>"
  using getCurrentSlideInfo_refines [of sample_world]
  by (simp add: ctl_getInfo_def abs_ctl_def)

section \<open>The interface and the display\<close>

lemma shown_ok_fold_perform [wf_keep]:
  assumes "shown_ok w"
  shows "shown_ok (fold perform cmds w)"
proof -
  from assms have "layout_ok w \<and> display_synced w" "position_ok w" by (simp_all add: shown_ok_def)
  then have "layout_ok (fold perform cmds w) \<and> display_synced (fold perform cmds w)"
    by (rule fold_perform_preserves [where I = "\<lambda>w. layout_ok w \<and> display_synced w", rotated])
      (simp add: display_synced_goToSlide)
  with assms show ?thesis by (simp add: shown_ok_def position_ok_fold_perform)
qed

lemma same_object_fold_perform:
  "position_ok w \<Longrightarrow> same_object w (fold perform cmds w)"
  by (rule fold_perform_preserves [where I = "same_object w", rotated])
    (simp_all add: same_object_goToSlide)

text \<open>What the sample page shows after a sequence of calls of the interface.\<close>

lemma sample_after:
  assumes "ctl_run cmds \<lparr>pos = 1, count = 10\<rparr> = \<lparr>pos = k, count = 10\<rparr>"
  shows "position (fold perform cmds sample_world) = k"
    and "view_at (doc (fold perform cmds sample_world)) [2] = Some (prev_control \<lparr>pos = k, count = 10\<rparr>)"
    and "view_at (doc (fold perform cmds sample_world)) [5] = Some (next_control \<lparr>pos = k, count = 10\<rparr>)"
    and "width_at (doc (fold perform cmds sample_world)) [1] =
           Some (Number_toString (Fin (percent k 10)) @ ''%'')"
proof -
  let ?w = "fold perform cmds sample_world"
  have "abs_ctl sample_world = \<lparr>pos = 1, count = 10\<rparr>" by (simp add: abs_ctl_def)
  with assms abs_fold_perform [of sample_world cmds]
  have a: "abs_ctl ?w = \<lparr>pos = k, count = 10\<rparr>" by simp
  then show "position ?w = k" by (simp add: abs_ctl_def)
  have "display_synced ?w"
    using shown_ok_fold_perform [OF sample_shown_ok, of cmds] by (simp add: shown_ok_def)
  moreover note same_object_fields [OF same_object_fold_perform [of sample_world cmds]]
  ultimately show
    "view_at (doc ?w) [2] = Some (prev_control \<lparr>pos = k, count = 10\<rparr>)"
    "view_at (doc ?w) [5] = Some (next_control \<lparr>pos = k, count = 10\<rparr>)"
    "width_at (doc ?w) [1] = Some (Number_toString (Fin (percent k 10)) @ ''%'')"
    using a by (simp_all add: display_synced_def Let_def)
qed

text \<open>
  C22 (functional). The scenario of the specification on the sample page of
  ten slides: nine calls of \<open>nextSlide\<close> reach the last slide, where the next
  button is disabled and the bar is full; \<open>previousSlide\<close> then shows slide 9
  with both buttons enabled; \<open>goToSlide(1)\<close> disables the previous button,
  labelled Start; \<open>goToSlide(999)\<close> changes nothing.
\<close>

theorem specified_scenario:
  "position (fold perform (replicate 9 Next) sample_world) = 10 \<and>
   view_at (doc (fold perform (replicate 9 Next) sample_world)) [5] =
     Some \<lparr>is_disabled = True, label = ''End''\<rparr> \<and>
   width_at (doc (fold perform (replicate 9 Next) sample_world)) [1] = Some ''100%'' \<and>
   position (fold perform (replicate 9 Next @ [Previous]) sample_world) = 9 \<and>
   view_at (doc (fold perform (replicate 9 Next @ [Previous]) sample_world)) [2] =
     Some \<lparr>is_disabled = False, label = larrow @ '' Previous''\<rparr> \<and>
   view_at (doc (fold perform (replicate 9 Next @ [Previous]) sample_world)) [5] =
     Some \<lparr>is_disabled = False, label = ''Next '' @ rarrow\<rparr> \<and>
   position (fold perform (replicate 9 Next @ [Previous, GoTo 1]) sample_world) = 1 \<and>
   view_at (doc (fold perform (replicate 9 Next @ [Previous, GoTo 1]) sample_world)) [2] =
     Some \<lparr>is_disabled = True, label = ''Start''\<rparr> \<and>
   perform (GoTo 999) (fold perform (replicate 9 Next @ [Previous, GoTo 1]) sample_world) =
     fold perform (replicate 9 Next @ [Previous, GoTo 1]) sample_world"
proof -
  have r: "ctl_run (replicate 9 Next) \<lparr>pos = 1, count = 10\<rparr> = \<lparr>pos = 10, count = 10\<rparr>"
    "ctl_run (replicate 9 Next @ [Previous]) \<lparr>pos = 1, count = 10\<rparr> = \<lparr>pos = 9, count = 10\<rparr>"
    "ctl_run (replicate 9 Next @ [Previous, GoTo 1]) \<lparr>pos = 1, count = 10\<rparr> =
       \<lparr>pos = 1, count = 10\<rparr>"
    by (simp_all add: ctl_run_def eval_nat_numeral ctl_next_def ctl_previous_def ctl_goTo_def)
  let ?w = "fold perform (replicate 9 Next @ [Previous, GoTo 1]) sample_world"
  have "totalSlides (this ?w) = totalSlides (this sample_world)"
    by (rule same_object_fields(7) [OF same_object_fold_perform]) simp
  then have "totalSlides (this ?w) = num 10" by (simp only: sample_this of_int_numeral)
  then have "goToSlide (num 999) ?w = ?w" by (rule goToSlide_out_of_range) simp
  then have "perform (GoTo 999) ?w = ?w" by (simp only: perform.simps navigateToSlide_def)
  with sample_after [OF r(1)] sample_after [OF r(2)] sample_after [OF r(3)] show ?thesis
    using Number_toString_100 percent_full [of 10]
    by (simp add: prev_control_def next_control_def labels)
qed

section \<open>The page and the display\<close>

text \<open>
  A page shows its position when, as long as the object does not exist, the
  markup is untouched and the one timer of the load handler is waiting, and,
  once it exists, the display is in step with the position.
\<close>

definition page_shown :: "node \<Rightarrow> page \<Rightarrow> bool" where
  "page_shown d pg \<longleftrightarrow>
     (case window_presentation pg of
        None \<Rightarrow> document pg = d \<and> timers pg = [InitTask]
      | Some t \<Rightarrow> shown_ok (world_of t pg) \<and> InitTask \<notin> set (timers pg))"

text \<open>The display and the deck are properties that every reachable page keeps.\<close>

lemma shown_reachable:
  assumes "markup_ok d" "reachable d pg"
  shows "page_holds shown_ok d pg"
  using assms(2)
  by (rule page_holds_reachable [rotated -1])
    (simp_all add: shown_okD shown_ok_safe shown_ok_updateSlideDisplay shown_ok_body_class
      shown_ok_new_Presentation assms(1))

lemma sound_reachable:
  assumes "markup_ok d" "markup_deck d" "reachable d pg"
  shows "page_holds (sound d) d pg"
  using assms(3)
  by (rule page_holds_reachable [rotated -1])
    (simp_all add: soundD(2) sound_goToSlide sound_updateSlideDisplay sound_body_class
      sound_new_Presentation assms(1,2))

text \<open>
  C1 (invariant). On a markup that follows the host contract, whatever
  timers, visibility changes, resizes, inputs and calls of the interface
  with integer arguments follow the load event and in whatever order: as soon as the object exists, the buttons, the counter and
  the progress bar show what the specification derives from its position, and
  the position is in range.
\<close>

theorem page_shows_position:
  assumes "markup_ok d"
  shows "page_shown d (page_run evs (DOMContentLoaded (load_page d)))"
proof -
  have "reachable d (page_run evs (DOMContentLoaded (load_page d)))"
    by (intro reachable_run reachable.loaded)
  with assms have "page_holds shown_ok d (page_run evs (DOMContentLoaded (load_page d)))"
    by (rule shown_reachable)
  then show ?thesis by (auto simp: page_shown_def page_holds_def split: option.splits)
qed

theorem page_shows_position_witness:
  "markup_ok sample_page \<and>
   page_shown sample_page
     (page_run [TimerFires, Input (Element [5]) Click, Resize, Call (GoTo 4),
          Input Document (Key ''End''), TimerFires]
        (DOMContentLoaded (load_page sample_page)))"
  using page_shows_position [of sample_page] sample_markup_ok by simp

section \<open>The page and the deck\<close>

text \<open>
  C2 (invariant). On a markup that follows the host contract and shows its
  deck, in every state that the page reaches once the object exists: exactly
  one slide of the markup carries the class \<open>active\<close>, and it is the element
  that the markup numbers with the position of the page.
\<close>

theorem page_shows_one_slide:
  assumes "markup_ok d" "markup_deck d" "reachable d pg" "page_position pg = Some k"
  shows "\<exists>s. slide_for (num k) d = Some s \<and>
             filter (is_active (document pg)) (querySelectorAll (ByClass ''slide'') d) = [s]"
proof -
  from assms(4) obtain t where t: "window_presentation pg = Some t" "k = int_of (currentSlide t)"
    by (auto simp: page_position_def)
  with sound_reachable [OF assms(1-3)] have "sound d (world_of t pg)" by (simp add: page_holds_def)
  note w = soundD(1,3) [OF this]
  from w(1) t(2) have "currentSlide t = num k"
    by (auto dest!: shown_okD elim!: position_okE)
  with deck_of_one_active [OF w(2) shown_okD [OF w(1)]] show ?thesis by simp
qed

theorem page_shows_one_slide_witness:
  "\<exists>s. slide_for (num 1) sample_page = Some s \<and>
       filter (is_active (document (loaded_page sample_page)))
         (querySelectorAll (ByClass ''slide'') sample_page) = [s]"
proof -
  have "reachable sample_page (loaded_page sample_page)"
    unfolding loaded_page_def by (intro reachable.intros)
  moreover have "page_position (loaded_page sample_page) = Some 1"
    by (simp add: sample_loaded_correct sample_loaded_def page_position_def)
  ultimately show ?thesis
    using page_shows_one_slide [of sample_page "loaded_page sample_page" 1]
      sample_markup_ok sample_markup_deck by simp
qed

text \<open>
  C27 (type). The references of the object stay typed. On a markup that
  follows the host contract, in every state the page reaches, the object
  holds the references that the constructor found, each reference designates
  an element of the document, and the element still matches the selector it
  was found by: the \<open>id\<close> for a control, the class \<open>slide\<close> for a slide.
\<close>

theorem references_stay_typed:
  assumes "markup_ok d" "markup_deck d" "reachable d pg" "window_presentation pg = Some t"
  shows "refs_ok (world_of t pg) \<and> t\<lparr>currentSlide := Fin 1\<rparr> = new_object d"
proof -
  from sound_reachable [OF assms(1-3)] assms(4) have "sound d (world_of t pg)"
    by (simp add: page_holds_def)
  from soundD(4,6) [OF this] show ?thesis by simp
qed

theorem references_stay_typed_witness:
  "refs_ok (world_of (this sample_world) (loaded_page sample_page)) \<and>
   (this sample_world)\<lparr>currentSlide := Fin 1\<rparr> = new_object sample_page"
proof -
  have "reachable sample_page (loaded_page sample_page)"
    unfolding loaded_page_def by (intro reachable.intros)
  moreover have "window_presentation (loaded_page sample_page) = Some (this sample_world)"
    by (simp add: sample_loaded_correct sample_loaded_def)
  ultimately show ?thesis
    by (rule references_stay_typed [OF sample_markup_ok sample_markup_deck])
qed

end
